theory Spec2Isabelle
  imports Complex_Main
begin

section \<open>Numeric conventions\<close>

text \<open>
  The analysis code computes on NumPy double-precision arrays.  The embedding takes the
  values as real numbers, so rounding is not represented: \<open>1e-9\<close> is the real \<open>1 / 10^9\<close>
  and \<open>1e-6\<close> is \<open>1 / 10^6\<close>.  A value that NumPy reports as not-a-number is \<open>None\<close>.
  Indices are natural numbers; where the source clamps an index expression at zero with
  \<open>max(0, \<dots>)\<close> the subtraction is written on integers and clamped as in the source.
\<close>

definition py_slice :: "nat \<Rightarrow> nat \<Rightarrow> 'a list \<Rightarrow> 'a list" where
  \<comment> \<open>\<open>xs[a:b]\<close> for non-negative bounds\<close>
  "py_slice a b xs = take (b - a) (drop a xs)"

definition np_mean :: "real list \<Rightarrow> real" where
  "np_mean xs = sum_list xs / real (length xs)"

definition np_median :: "real list \<Rightarrow> real" where
  "np_median xs =
     (let s = sort xs; n = length s
      in if n mod 2 = 1 then s ! (n div 2)
         else (s ! (n div 2 - 1) + s ! (n div 2)) / 2)"

fun np_diff :: "real list \<Rightarrow> real list" where
  "np_diff (x # y # ys) = (y - x) # np_diff (y # ys)"
| "np_diff [x] = []"
| "np_diff [] = []"

definition rolling_median3 :: "real list \<Rightarrow> real list" where
  \<comment> \<open>\<open>pd.Series(d).rolling(window=3, min_periods=1, center=True).median()\<close>:
      position \<open>i\<close> sees the entries \<open>i-1\<close>, \<open>i\<close>, \<open>i+1\<close> that exist\<close>
  "rolling_median3 d =
     map (\<lambda>i. np_median (py_slice (nat (max 0 (int i - 1))) (i + 2) d)) [0..<length d]"

section \<open>Peak finding (\<open>scipy.signal.find_peaks\<close> with prominence and distance)\<close>

text \<open>
  \<open>find_peaks\<close> is a library routine; the three stages it runs for the arguments the
  detector passes are written out after its source: the local maxima of the sequence
  (a plateau counts once, at the middle of the plateau, and only if the sequence is lower
  on both sides), the selection by minimal distance in order of decreasing height, and
  the selection by prominence.
\<close>

function plateau_end :: "real list \<Rightarrow> nat \<Rightarrow> nat \<Rightarrow> nat" where
  \<comment> \<open>\<open>while i_ahead < i_max and x[i_ahead] == x[i]: i_ahead += 1\<close>\<close>
  "plateau_end x i i_ahead =
     (if i_ahead < length x - 1 \<and> x ! i_ahead = x ! i
      then plateau_end x i (i_ahead + 1) else i_ahead)"
  by pat_completeness auto
termination
  by (relation "measure (\<lambda>(x, i, i_ahead). length x - i_ahead)") auto

declare plateau_end.simps [simp del]

lemma plateau_end_ge: "i_ahead \<le> plateau_end x i i_ahead"
proof (induction x i i_ahead rule: plateau_end.induct)
  case (1 x i i_ahead)
  show ?case
  proof (cases "i_ahead < length x - 1 \<and> x ! i_ahead = x ! i")
    case True
    with "1" have "i_ahead + 1 \<le> plateau_end x i (i_ahead + 1)" by simp
    with True show ?thesis by (subst plateau_end.simps) simp
  next
    case False
    then show ?thesis by (subst plateau_end.simps) auto
  qed
qed

function local_maxima_from :: "real list \<Rightarrow> nat \<Rightarrow> nat list" where
  \<comment> \<open>the main loop of \<open>_local_maxima_1d\<close>, from index \<open>i\<close>; the result lists the
      midpoints of the maxima found\<close>
  "local_maxima_from x i =
     (if i < length x - 1 then
        (if x ! (i - 1) < x ! i then
           (let i_ahead = plateau_end x i (i + 1)
            in if x ! i_ahead < x ! i
               then ((i + (i_ahead - 1)) div 2) # local_maxima_from x (i_ahead + 1)
               else local_maxima_from x (i + 1))
         else local_maxima_from x (i + 1))
      else [])"
  by pat_completeness auto
termination
proof (relation "measure (\<lambda>(x, i). length x - i)")
  show "wf (measure (\<lambda>(x, i). length x - i))" by simp
next
  fix x :: "real list" and i i_ahead :: nat
  assume lt: "i < length x - 1" and ah: "i_ahead = plateau_end x i (i + 1)"
  have "i + 1 \<le> i_ahead" unfolding ah by (rule plateau_end_ge)
  with lt show "((x, i_ahead + 1), (x, i)) \<in> measure (\<lambda>(x, i). length x - i)" by simp
next
  fix x :: "real list" and i :: nat
  assume "i < length x - 1"
  then show "((x, i + 1), (x, i)) \<in> measure (\<lambda>(x, i). length x - i)" by simp
next
  fix x :: "real list" and i :: nat
  assume "i < length x - 1"
  then show "((x, i + 1), (x, i)) \<in> measure (\<lambda>(x, i). length x - i)" by simp
qed

declare local_maxima_from.simps [simp del]

definition local_maxima_1d :: "real list \<Rightarrow> nat list" where
  "local_maxima_1d x = local_maxima_from x 1"

fun mark_left :: "nat list \<Rightarrow> nat \<Rightarrow> nat \<Rightarrow> nat \<Rightarrow> bool list \<Rightarrow> bool list" where
  \<comment> \<open>\<open>k = j - 1; while 0 <= k and peaks[j] - peaks[k] < distance: keep[k] = 0; k -= 1\<close>;
      the fourth argument is \<open>k + 1\<close>\<close>
  "mark_left peaks j d 0 keep = keep"
| "mark_left peaks j d (Suc k) keep =
     (if int (peaks ! j) - int (peaks ! k) < int d
      then mark_left peaks j d k (keep[k := False]) else keep)"

function mark_right :: "nat list \<Rightarrow> nat \<Rightarrow> nat \<Rightarrow> nat \<Rightarrow> bool list \<Rightarrow> bool list" where
  \<comment> \<open>\<open>k = j + 1; while k < peaks_size and peaks[k] - peaks[j] < distance: keep[k] = 0; k += 1\<close>\<close>
  "mark_right peaks j d k keep =
     (if k < length peaks \<and> int (peaks ! k) - int (peaks ! j) < int d
      then mark_right peaks j d (k + 1) (keep[k := False]) else keep)"
  by pat_completeness auto
termination
  by (relation "measure (\<lambda>(peaks, j, d, k, keep). length peaks - k)") auto

declare mark_right.simps [simp del]

definition argsort :: "real list \<Rightarrow> nat list" where
  \<comment> \<open>\<open>np.argsort\<close>; NumPy leaves the order of equal priorities open, here it is that of
      their positions\<close>
  "argsort priority = sort_key (\<lambda>i. priority ! i) [0..<length priority]"

definition select_by_peak_distance :: "nat list \<Rightarrow> real list \<Rightarrow> nat \<Rightarrow> bool list" where
  \<comment> \<open>peaks are visited from the highest priority down; a peak still kept removes its
      neighbours closer than the distance\<close>
  "select_by_peak_distance peaks priority d =
     fold (\<lambda>j keep. if \<not> keep ! j then keep
                     else mark_right peaks j d (j + 1) (mark_left peaks j d j keep))
          (rev (argsort priority)) (replicate (length peaks) True)"

definition mask_select :: "'a list \<Rightarrow> bool list \<Rightarrow> 'a list" where
  \<comment> \<open>\<open>peaks[keep]\<close> with a boolean mask\<close>
  "mask_select xs keep = map fst (filter snd (zip xs keep))"

fun left_min_scan :: "real list \<Rightarrow> nat \<Rightarrow> nat \<Rightarrow> real \<Rightarrow> real" where
  \<comment> \<open>\<open>while i_min <= i and x[i] <= x[peak]\<close>, walking left; the third argument is \<open>i + 1\<close>\<close>
  "left_min_scan x peak 0 left_min = left_min"
| "left_min_scan x peak (Suc i) left_min =
     (if x ! i \<le> x ! peak
      then left_min_scan x peak i (if x ! i < left_min then x ! i else left_min)
      else left_min)"

function right_min_scan :: "real list \<Rightarrow> nat \<Rightarrow> nat \<Rightarrow> real \<Rightarrow> real" where
  \<comment> \<open>\<open>while i <= i_max and x[i] <= x[peak]\<close>, walking right\<close>
  "right_min_scan x peak i right_min =
     (if i \<le> length x - 1 \<and> i < length x \<and> x ! i \<le> x ! peak
      then right_min_scan x peak (i + 1) (if x ! i < right_min then x ! i else right_min)
      else right_min)"
  by pat_completeness auto
termination
  by (relation "measure (\<lambda>(x, peak, i, right_min). length x - i)") auto

declare right_min_scan.simps [simp del]

definition peak_prominence :: "real list \<Rightarrow> nat \<Rightarrow> real" where
  "peak_prominence x peak =
     x ! peak - max (left_min_scan x peak (peak + 1) (x ! peak))
                    (right_min_scan x peak peak (x ! peak))"

definition find_peaks :: "real list \<Rightarrow> real \<Rightarrow> nat \<Rightarrow> nat list" where
  \<comment> \<open>\<open>find_peaks(x, prominence=pmin, distance=d)\<close>: distance is applied before prominence\<close>
  "find_peaks x pmin d =
     (let peaks = local_maxima_1d x;
          peaks = mask_select peaks
                    (select_by_peak_distance peaks (map (\<lambda>p. x ! p) peaks) d)
      in filter (\<lambda>p. pmin \<le> peak_prominence x p) peaks)"

section \<open>Step detector (\<open>_detect_steps\<close>)\<close>

definition smoothed_diff :: "real list \<Rightarrow> real list" where
  "smoothed_diff vals = rolling_median3 (np_diff vals)"

definition step_prominence :: "real list \<Rightarrow> real option \<Rightarrow> real" where
  \<comment> \<open>the adaptive threshold: \<open>max(1e-6, 3 * mad)\<close> unless the caller fixes it\<close>
  "step_prominence vals prominence =
     (let diff_s = smoothed_diff vals;
          mad = np_median (map (\<lambda>d. \<bar>d - np_median diff_s\<bar>) diff_s)
      in case prominence of None \<Rightarrow> max (1 / 10 ^ 6) (3 * mad) | Some p \<Rightarrow> p)"

definition detect_steps :: "real list \<Rightarrow> real option \<Rightarrow> nat \<Rightarrow> (nat \<times> nat) list" where
  "detect_steps vals prominence distance =
     (if length vals < 10 then []
      else let diff_s = smoothed_diff vals;
               peaks = find_peaks (map abs diff_s) (step_prominence vals prominence) distance
           in map (\<lambda>p. (nat (max 0 (int p - 8)), min (length vals - 1) (p + 8))) peaks)"

subsection \<open>A flat series has no step\<close>

lemma np_diff_flat:
  "(\<And>i. Suc i < length vals \<Longrightarrow> vals ! i = vals ! Suc i)
   \<Longrightarrow> np_diff vals = replicate (length vals - 1) 0"
proof (induction vals rule: np_diff.induct)
  case (1 x y ys)
  have xy: "x = y" using "1.prems" [of 0] by simp
  have "np_diff (y # ys) = replicate (length (y # ys) - 1) 0"
  proof (rule "1.IH")
    fix i assume "Suc i < length (y # ys)"
    then show "(y # ys) ! i = (y # ys) ! Suc i"
      using "1.prems" [of "Suc i"] by simp
  qed
  with xy show ?case by simp
qed simp_all

lemma np_median_replicate: "0 < k \<Longrightarrow> np_median (replicate k c) = c"
proof -
  assume k: "0 < k"
  have s: "sort (replicate k c) = replicate k c"
    by (rule sorted_sort_id) simp
  have "k div 2 < k" "k div 2 - 1 < k" using k by simp_all
  then show ?thesis by (simp add: np_median_def s Let_def)
qed

lemma rolling_median3_zero: "rolling_median3 (replicate m 0) = replicate m 0"
proof -
  have "np_median (py_slice (nat (max 0 (int i - 1))) (i + 2) (replicate m 0)) = 0"
    if "i < m" for i
  proof -
    have "py_slice (nat (max 0 (int i - 1))) (i + 2) (replicate m (0::real))
          = replicate (min (i + 2 - nat (max 0 (int i - 1))) (m - nat (max 0 (int i - 1)))) 0"
      by (simp add: py_slice_def)
    moreover have "0 < min (i + 2 - nat (max 0 (int i - 1))) (m - nat (max 0 (int i - 1)))"
      using that by auto
    ultimately show ?thesis by (simp only: np_median_replicate)
  qed
  then have "map (\<lambda>i. np_median (py_slice (nat (max 0 (int i - 1))) (i + 2) (replicate m 0)))
               [0..<m] = map (\<lambda>i. 0) [0..<m]"
    by (intro map_cong) auto
  then show ?thesis by (simp add: rolling_median3_def map_replicate_const)
qed

lemma local_maxima_from_const: "local_maxima_from (replicate m c) i = []"
proof (induction "replicate m c" i rule: local_maxima_from.induct)
  case (1 i)
  show ?case
  proof (cases "i < length (replicate m c) - 1")
    case True
    then have "replicate m c ! (i - 1) = replicate m c ! i" by simp
    with True "1.hyps"(3) show ?thesis
      by (subst local_maxima_from.simps) simp
  next
    case False
    then show ?thesis by (subst local_maxima_from.simps) simp
  qed
qed

lemma find_peaks_const: "find_peaks (replicate m c) pmin d = []"
  by (simp add: find_peaks_def local_maxima_1d_def local_maxima_from_const
      select_by_peak_distance_def argsort_def mask_select_def)

lemma smoothed_diff_flat:
  assumes "\<And>i. Suc i < length vals \<Longrightarrow> vals ! i = vals ! Suc i"
  shows "smoothed_diff vals = replicate (length vals - 1) 0"
  by (simp add: smoothed_diff_def np_diff_flat [OF assms] rolling_median3_zero)

text \<open>
  C7.  A perfectly flat series (every value equals its successor) gives no step window:
  the smoothed differences are all zero, the threshold is the floor \<open>1e-6\<close> (the maximum
  of the floor and three times a MAD of zero), and the all-zero sequence has no peak.
\<close>

theorem detect_steps_flat:
  assumes "\<forall>i. Suc i < length vals \<longrightarrow> vals ! i = vals ! Suc i"
  shows "detect_steps vals None 5 = []
         \<and> (10 \<le> length vals \<longrightarrow>
              step_prominence vals None = 1 / 10 ^ 6
              \<and> (\<forall>d \<in> set (smoothed_diff vals). \<bar>d\<bar> < step_prominence vals None))"
proof -
  have flat: "\<And>i. Suc i < length vals \<Longrightarrow> vals ! i = vals ! Suc i"
    using assms by blast
  have sd: "smoothed_diff vals = replicate (length vals - 1) 0"
    by (rule smoothed_diff_flat [OF flat])
  have steps: "detect_steps vals None 5 = []"
    by (simp add: detect_steps_def sd find_peaks_const)
  have prom: "step_prominence vals None = 1 / 10 ^ 6" if "10 \<le> length vals"
  proof -
    have "0 < length vals - 1" using that by simp
    then show ?thesis
      by (simp add: step_prominence_def sd np_median_replicate)
  qed
  have below: "\<forall>d \<in> set (smoothed_diff vals). \<bar>d\<bar> < step_prominence vals None"
    if "10 \<le> length vals"
    using prom [OF that] by (simp add: sd)
  from steps prom below show ?thesis by blast
qed

theorem detect_steps_flat_witness:
  "detect_steps (replicate 30 (5 / 2)) None 5 = []
   \<and> step_prominence (replicate 30 (5 / 2)) None = 1 / 10 ^ 6"
  using detect_steps_flat [of "replicate 30 (5 / 2)"] by simp

section \<open>First-order identification (\<open>estimate_pid_for_selected\<close>)\<close>

definition first_order :: "real \<Rightarrow> real \<Rightarrow> real \<Rightarrow> real \<Rightarrow> real option" where
  \<comment> \<open>\<open>K * (1 - np.exp(-t / (tau + 1e-9))) + y0\<close>; \<open>None\<close> marks a zero denominator.
      NumPy does not raise there: it yields not-a-number at \<open>t = 0\<close>, the first time of every
      segment, and \<open>K + y0\<close> at \<open>t > 0\<close>\<close>
  "first_order t K tau y0 =
     (if tau + 1 / 10 ^ 9 = 0 then None
      else Some (K * (1 - exp (- t / (tau + 1 / 10 ^ 9))) + y0))"

type_synonym model_fn = "real \<Rightarrow> real \<Rightarrow> real \<Rightarrow> real \<Rightarrow> real option"

type_synonym fitter =
  "model_fn \<Rightarrow> real list \<Rightarrow> real list \<Rightarrow> real \<times> real \<times> real \<Rightarrow> string + real \<times> real \<times> real"
  \<comment> \<open>\<open>scipy.optimize.curve_fit(f, xdata, ydata, p0)\<close>: the fitted parameters, or the
      exception it raised; the fitter is a parameter of the model\<close>

record window_report =
  start_idx :: nat
  end_idx :: nat
  pre_mean :: real
  post_mean :: real

record fit_report =
  K_est :: real
  tau_est :: real
  y0_est :: real
  r2 :: "real option"
  L_est :: real
  Kp_zn :: real
  Ti_zn :: real
  Td_zn :: real

datatype outcome =
    TooFewSamples
  | NoStepFound
  | SegmentTooShort
  | FitFailed window_report string
  | FitSucceeded window_report fit_report

fun window_of :: "outcome \<Rightarrow> window_report option" where
  "window_of (FitFailed w e) = Some w"
| "window_of (FitSucceeded w r) = Some w"
| "window_of _ = None"

fun fit_of :: "outcome \<Rightarrow> fit_report option" where
  "fit_of (FitSucceeded w r) = Some r"
| "fit_of _ = None"

definition pre_samples :: "real list \<Rightarrow> nat \<Rightarrow> real list" where
  \<comment> \<open>\<open>vals[max(0, start_idx-10):start_idx+1]\<close>\<close>
  "pre_samples vals s = py_slice (nat (max 0 (int s - 10))) (s + 1) vals"

definition post_samples :: "real list \<Rightarrow> nat \<Rightarrow> real list" where
  \<comment> \<open>\<open>vals[end_idx:min(len(vals)-1, end_idx+10)+1]\<close>\<close>
  "post_samples vals e = py_slice e (min (length vals - 1) (e + 10) + 1) vals"

definition t_base :: "int list \<Rightarrow> real list" where
  \<comment> \<open>seconds since the first timestamp; timestamps are nanoseconds\<close>
  "t_base idx = map (\<lambda>t. real_of_int (t - idx ! 0) / 10 ^ 9) idx"

definition t_segment :: "int list \<Rightarrow> nat \<Rightarrow> nat \<Rightarrow> real list" where
  "t_segment idx s e = map (\<lambda>t. t - t_base idx ! s) (py_slice s (e + 1) (t_base idx))"

definition y_segment :: "real list \<Rightarrow> nat \<Rightarrow> nat \<Rightarrow> real list" where
  "y_segment vals s e = py_slice s (e + 1) vals"

definition ss_res :: "real list \<Rightarrow> real option list \<Rightarrow> real option" where
  \<comment> \<open>\<open>np.sum((y_segment - y_fit) ** 2)\<close>; not-a-number as soon as the fitted curve has
      a zero denominator, whose value at the first sample is then not-a-number\<close>
  "ss_res ys fs =
     (if None \<in> set fs then None
      else Some (sum_list (map (\<lambda>(y, f). (y - the f) ^ 2) (zip ys fs))))"

definition ss_tot :: "real list \<Rightarrow> real" where
  "ss_tot ys = sum_list (map (\<lambda>y. (y - np_mean ys) ^ 2) ys)"

definition r_squared :: "real list \<Rightarrow> real option list \<Rightarrow> real option" where
  \<comment> \<open>\<open>1 - ss_res / ss_tot if ss_tot != 0 else np.nan\<close>\<close>
  "r_squared ys fs =
     (if ss_tot ys \<noteq> 0 then map_option (\<lambda>sr. 1 - sr / ss_tot ys) (ss_res ys fs)
      else None)"

definition y_fit :: "int list \<Rightarrow> nat \<Rightarrow> nat \<Rightarrow> real \<times> real \<times> real \<Rightarrow> real option list" where
  \<comment> \<open>\<open>first_order(t_segment, *popt)\<close>\<close>
  "y_fit idx s e popt =
     (case popt of (K, tau, y0) \<Rightarrow> map (\<lambda>t. first_order t K tau y0) (t_segment idx s e))"

definition window_report_of :: "real list \<Rightarrow> nat \<Rightarrow> nat \<Rightarrow> window_report" where
  "window_report_of vals s e =
     \<lparr>start_idx = s, end_idx = e,
      pre_mean = np_mean (pre_samples vals s), post_mean = np_mean (post_samples vals e)\<rparr>"

definition initial_guess :: "int list \<Rightarrow> real list \<Rightarrow> nat \<Rightarrow> nat \<Rightarrow> real \<times> real \<times> real" where
  \<comment> \<open>\<open>p0 = [K_guess, tau_guess, y0_guess]\<close>\<close>
  "initial_guess idx vals s e =
     (let pre = np_mean (pre_samples vals s);
          post = np_mean (post_samples vals e);
          K_guess = post - pre;
          tau_guess = max 1 ((last (t_segment idx s e) - t_segment idx s e ! 0) / 3);
          y0_guess = pre
      in (K_guess, tau_guess, y0_guess))"

definition fit_report_of ::
  "int list \<Rightarrow> real list \<Rightarrow> nat \<Rightarrow> nat \<Rightarrow> real \<times> real \<times> real \<Rightarrow> fit_report" where
  \<comment> \<open>what follows a successful \<open>curve_fit\<close>: goodness of fit, then the tuning heuristic\<close>
  "fit_report_of idx vals s e popt =
     (case popt of (K, tau, y0) \<Rightarrow>
        let r = r_squared (y_segment vals s e) (y_fit idx s e popt);
            L = max 0 (0.1 * tau);
            K' = (if \<bar>K\<bar> < 1 / 10 ^ 9 then 1 / 10 ^ 9 else K);
            Kp = (1.2 * tau) / (\<bar>K'\<bar> * (L + 1 / 10 ^ 9))
        in \<lparr>K_est = K, tau_est = tau, y0_est = y0, r2 = r,
            L_est = L, Kp_zn = Kp, Ti_zn = 2 * L, Td_zn = 0.5 * L\<rparr>)"

definition estimate_column :: "fitter \<Rightarrow> int list \<Rightarrow> real list \<Rightarrow> outcome" where
  \<comment> \<open>the body of the loop over the columns of the cleaned frame\<close>
  "estimate_column curve_fit idx vals =
     (if length vals < 30 then TooFewSamples
      else case detect_steps vals None 5 of
        [] \<Rightarrow> NoStepFound
      | (s, e) # _ \<Rightarrow>
          if length (y_segment vals s e) < 6 then SegmentTooShort
          else case curve_fit first_order (t_segment idx s e) (y_segment vals s e)
                      (initial_guess idx vals s e) of
                 Inl err \<Rightarrow> FitFailed (window_report_of vals s e) err
               | Inr popt \<Rightarrow>
                   FitSucceeded (window_report_of vals s e) (fit_report_of idx vals s e popt))"

definition estimate_pid_for_selected ::
  "fitter \<Rightarrow> int list \<Rightarrow> (string \<times> real list) list \<Rightarrow> (string \<times> outcome) list" where
  \<comment> \<open>one report per column of the cleaned frame, independently of the others\<close>
  "estimate_pid_for_selected curve_fit idx cols =
     map (\<lambda>(name, vals). (name, estimate_column curve_fit idx vals)) cols"

subsection \<open>Reading a report back\<close>

lemma py_slice_nth: "b \<le> length xs \<Longrightarrow> py_slice a b xs = map ((!) xs) [a..<b]"
  by (auto intro!: nth_equalityI simp: py_slice_def)

lemma detect_steps_end: "(s, e) \<in> set (detect_steps vals pr d) \<Longrightarrow> e \<le> length vals - 1"
  by (auto simp: detect_steps_def Let_def split: if_splits)


lemma estimate_column_fit:
  assumes "fit_of (estimate_column cf idx vals) = Some r"
  shows "\<exists>s e rest popt. 30 \<le> length vals
       \<and> detect_steps vals None 5 = (s, e) # rest
       \<and> 6 \<le> length (y_segment vals s e)
       \<and> cf first_order (t_segment idx s e) (y_segment vals s e)
            (initial_guess idx vals s e) = Inr popt
       \<and> r = fit_report_of idx vals s e popt
       \<and> estimate_column cf idx vals = FitSucceeded (window_report_of vals s e) r"
proof (cases "length vals < 30")
  case True
  with assms show ?thesis by (simp add: estimate_column_def)
next
  case long: False
  show ?thesis
  proof (cases "detect_steps vals None 5")
    case Nil
    with long assms show ?thesis by (simp add: estimate_column_def)
  next
    case (Cons se rest)
    obtain s e where se: "se = (s, e)" by (cases se)
    show ?thesis
    proof (cases "length (y_segment vals s e) < 6")
      case True
      with long Cons se assms show ?thesis by (simp add: estimate_column_def)
    next
      case seg: False
      show ?thesis
      proof (cases "cf first_order (t_segment idx s e) (y_segment vals s e)
            (initial_guess idx vals s e)")
        case (Inl err)
        with long Cons se seg assms show ?thesis by (simp add: estimate_column_def)
      next
        case (Inr popt)
        obtain K tau y0 where "popt = (K, tau, y0)" by (cases popt)
        with Inr long Cons se seg assms show ?thesis by (simp add: estimate_column_def)
      qed
    qed
  qed
qed


subsection \<open>An example run\<close>

text \<open>
  A series of 45 samples, one second apart: a short level of 1, a level of 0, a step to
  10 over two samples, and a one-sample excursion to 11 after the step.  The two
  one-sample changes are removed by the rolling median; the step is the only peak, at
  index 19, so the window is \<open>(11, 27)\<close>.
\<close>

definition ex_series :: "real list" where
  "ex_series = replicate 3 1 @ replicate 17 0 @ [5] @ replicate 16 10 @ [11] @ replicate 7 10"

definition ex_idx :: "int list" where
  "ex_idx = map (\<lambda>i. int i * 10 ^ 9) [0..<45]"

text \<open>Two fitters to run the estimator with: one returns fixed parameters, one fails.\<close>

definition fitter_returning :: "real \<times> real \<times> real \<Rightarrow> fitter" where
  "fitter_returning popt = (\<lambda>f ts ys p0. Inr popt)"




lemma ex_length: "length ex_series = 45"
  by (simp add: ex_series_def)

lemma ex_detect: "detect_steps ex_series None 5 = [(11, 27)]"
  by code_simp

lemma ex_segment: "length (y_segment ex_series 11 27) = 17"
  by code_simp

lemma ex_pre: "np_mean (pre_samples ex_series 11) = 2 / 11"
  by code_simp

lemma ex_post: "np_mean (post_samples ex_series 27) = 111 / 11"
  by code_simp


subsection \<open>Steady values before and after the step\<close>




subsection \<open>Tuning heuristic\<close>

lemma ex_fit_some:
  "fit_of (estimate_column (fitter_returning popt) ex_idx ex_series)
   = Some (fit_report_of ex_idx ex_series 11 27 popt)"
  by (simp add: estimate_column_def ex_length ex_detect ex_segment fitter_returning_def)

lemma ex_window_ok:
  "window_of (estimate_column (fitter_returning popt) ex_idx ex_series)
   = Some \<lparr>start_idx = 11, end_idx = 27, pre_mean = 2 / 11, post_mean = 111 / 11\<rparr>"
  by (simp add: estimate_column_def ex_length ex_detect ex_segment ex_pre ex_post
      fitter_returning_def window_report_of_def)

lemma estimate_column_ok:
  assumes "30 \<le> length vals" "detect_steps vals None 5 = (s, e) # rest"
    "6 \<le> length (y_segment vals s e)"
    "cf first_order (t_segment idx s e) (y_segment vals s e) (initial_guess idx vals s e) = Inr popt"
  shows "estimate_column cf idx vals
         = FitSucceeded (window_report_of vals s e) (fit_report_of idx vals s e popt)"
  using assms by (simp add: estimate_column_def)

lemma fit_report_of_r2:
  "r2 (fit_report_of idx vals s e (K, tau, y0))
   = r_squared (y_segment vals s e) (map (\<lambda>t. first_order t K tau y0) (t_segment idx s e))"
  by (simp add: fit_report_of_def Let_def y_fit_def)

lemma fit_report_of_params:
  "K_est (fit_report_of idx vals s e (K, tau, y0)) = K"
  "tau_est (fit_report_of idx vals s e (K, tau, y0)) = tau"
  "y0_est (fit_report_of idx vals s e (K, tau, y0)) = y0"
  by (simp_all add: fit_report_of_def Let_def)

lemma fit_report_of_tuning:
  "L_est (fit_report_of idx vals s e (K, tau, y0)) = max 0 (0.1 * tau)"
  "Kp_zn (fit_report_of idx vals s e (K, tau, y0))
   = 1.2 * tau / ((if \<bar>K\<bar> < 1 / 10 ^ 9 then 1 / 10 ^ 9 else \<bar>K\<bar>) * (max 0 (0.1 * tau) + 1 / 10 ^ 9))"
  "Ti_zn (fit_report_of idx vals s e (K, tau, y0)) = 2 * max 0 (0.1 * tau)"
  "Td_zn (fit_report_of idx vals s e (K, tau, y0)) = 0.5 * max 0 (0.1 * tau)"
  by (simp_all add: fit_report_of_def Let_def)

text \<open>
  C5.  For every successful fit, with \<open>K\<close> and \<open>tau\<close> the parameters the fitter returned
  for the window, the report carries these parameters and the recommendation
  \<open>L = max(0, 0.1 tau)\<close>, \<open>Kp = 1.2 tau / (|K| (L + 1e-9))\<close> where \<open>|K|\<close> is replaced by
  \<open>1e-9\<close> when it is below \<open>1e-9\<close>, \<open>Ti = 2 L\<close> and \<open>Td = 0.5 L\<close>; and every report of
  a fit comes from such a return of the fitter.  For \<open>K = 5\<close> and \<open>tau = 10\<close> this gives
  \<open>L = 1\<close>, \<open>Ti = 2\<close>, \<open>Td = 0.5\<close> and \<open>Kp = 12 / (5 (1 + 1e-9))\<close>, which lies below
  \<open>2.4\<close> by more than \<open>2.3e-9\<close> and less than \<open>2.5e-9\<close>: a relative distance of about
  \<open>1e-9\<close>, that of the \<open>1e-9\<close> added to \<open>L\<close>.  (Real arithmetic; rounding is not
  represented, and the bounds leave room for it.)
\<close>

theorem zn_tuning_formulas:
  "(30 \<le> length vals \<and> detect_steps vals None 5 = (s, e) # rest
      \<and> 6 \<le> length (y_segment vals s e)
      \<and> cf first_order (t_segment idx s e) (y_segment vals s e) (initial_guess idx vals s e)
          = Inr (K, tau, y0) \<longrightarrow>
      (\<exists>r. fit_of (estimate_column cf idx vals) = Some r
         \<and> K_est r = K \<and> tau_est r = tau \<and> y0_est r = y0
         \<and> L_est r = max 0 (0.1 * tau)
         \<and> Kp_zn r = 1.2 * tau /
              ((if \<bar>K\<bar> < 1 / 10 ^ 9 then 1 / 10 ^ 9 else \<bar>K\<bar>) * (max 0 (0.1 * tau) + 1 / 10 ^ 9))
         \<and> Ti_zn r = 2 * max 0 (0.1 * tau)
         \<and> Td_zn r = 0.5 * max 0 (0.1 * tau)))
   \<and> (fit_of (estimate_column cf idx vals) = Some r \<longrightarrow>
      (\<exists>s e rest. 30 \<le> length vals \<and> detect_steps vals None 5 = (s, e) # rest
         \<and> 6 \<le> length (y_segment vals s e)
         \<and> cf first_order (t_segment idx s e) (y_segment vals s e) (initial_guess idx vals s e)
             = Inr (K_est r, tau_est r, y0_est r))
      \<and> L_est r = max 0 (0.1 * tau_est r)
      \<and> Kp_zn r = 1.2 * tau_est r /
           ((if \<bar>K_est r\<bar> < 1 / 10 ^ 9 then 1 / 10 ^ 9 else \<bar>K_est r\<bar>)
            * (max 0 (0.1 * tau_est r) + 1 / 10 ^ 9))
      \<and> Ti_zn r = 2 * L_est r
      \<and> Td_zn r = 0.5 * L_est r
      \<and> (K_est r = 5 \<and> tau_est r = 10 \<longrightarrow>
           L_est r = 1 \<and> Ti_zn r = 2 \<and> Td_zn r = 0.5
           \<and> Kp_zn r = 1.2 * 10 / (5 * (1 + 1 / 10 ^ 9))
           \<and> \<bar>Kp_zn r - 2.4\<bar> < 2.5 / 10 ^ 9
           \<and> 2.3 / 10 ^ 9 < 2.4 - Kp_zn r))"
proof -
  have fwd: "\<exists>r. fit_of (estimate_column cf idx vals) = Some r
         \<and> K_est r = K \<and> tau_est r = tau \<and> y0_est r = y0
         \<and> L_est r = max 0 (0.1 * tau)
         \<and> Kp_zn r = 1.2 * tau /
              ((if \<bar>K\<bar> < 1 / 10 ^ 9 then 1 / 10 ^ 9 else \<bar>K\<bar>) * (max 0 (0.1 * tau) + 1 / 10 ^ 9))
         \<and> Ti_zn r = 2 * max 0 (0.1 * tau)
         \<and> Td_zn r = 0.5 * max 0 (0.1 * tau)"
    if "30 \<le> length vals" "detect_steps vals None 5 = (s, e) # rest"
      "6 \<le> length (y_segment vals s e)"
      "cf first_order (t_segment idx s e) (y_segment vals s e) (initial_guess idx vals s e)
          = Inr (K, tau, y0)"
  proof -
    have "fit_of (estimate_column cf idx vals) = Some (fit_report_of idx vals s e (K, tau, y0))"
      using estimate_column_ok [where cf = cf and idx = idx, OF that] by simp
    then show ?thesis
      using fit_report_of_params [of idx vals s e K tau y0]
        fit_report_of_tuning [of idx vals s e K tau y0] by blast
  qed
  have bwd: "(\<exists>s e rest. 30 \<le> length vals \<and> detect_steps vals None 5 = (s, e) # rest
         \<and> 6 \<le> length (y_segment vals s e)
         \<and> cf first_order (t_segment idx s e) (y_segment vals s e) (initial_guess idx vals s e)
             = Inr (K_est r, tau_est r, y0_est r))
      \<and> L_est r = max 0 (0.1 * tau_est r)
      \<and> Kp_zn r = 1.2 * tau_est r /
           ((if \<bar>K_est r\<bar> < 1 / 10 ^ 9 then 1 / 10 ^ 9 else \<bar>K_est r\<bar>)
            * (max 0 (0.1 * tau_est r) + 1 / 10 ^ 9))
      \<and> Ti_zn r = 2 * L_est r
      \<and> Td_zn r = 0.5 * L_est r
      \<and> (K_est r = 5 \<and> tau_est r = 10 \<longrightarrow>
           L_est r = 1 \<and> Ti_zn r = 2 \<and> Td_zn r = 0.5
           \<and> Kp_zn r = 1.2 * 10 / (5 * (1 + 1 / 10 ^ 9))
           \<and> \<bar>Kp_zn r - 2.4\<bar> < 2.5 / 10 ^ 9
           \<and> 2.3 / 10 ^ 9 < 2.4 - Kp_zn r)"
    if fit: "fit_of (estimate_column cf idx vals) = Some r"
  proof -
    from estimate_column_fit [OF fit] obtain s e rest popt where
      g: "30 \<le> length vals" "detect_steps vals None 5 = (s, e) # rest"
         "6 \<le> length (y_segment vals s e)"
      and cf: "cf first_order (t_segment idx s e) (y_segment vals s e)
                 (initial_guess idx vals s e) = Inr popt"
      and r0: "r = fit_report_of idx vals s e popt"
      by blast
    obtain K tau y0 where popt: "popt = (K, tau, y0)" by (cases popt)
    have r: "r = fit_report_of idx vals s e (K, tau, y0)" using r0 popt by simp
    have par: "K_est r = K" "tau_est r = tau" "y0_est r = y0"
      unfolding r by (rule fit_report_of_params)+
    have L: "L_est r = max 0 (0.1 * tau_est r)"
      and Kp: "Kp_zn r = 1.2 * tau_est r /
           ((if \<bar>K_est r\<bar> < 1 / 10 ^ 9 then 1 / 10 ^ 9 else \<bar>K_est r\<bar>)
            * (max 0 (0.1 * tau_est r) + 1 / 10 ^ 9))"
      and Ti: "Ti_zn r = 2 * L_est r" and Td: "Td_zn r = 0.5 * L_est r"
      unfolding par unfolding r fit_report_of_tuning by simp_all
    have src: "\<exists>s e rest. 30 \<le> length vals \<and> detect_steps vals None 5 = (s, e) # rest
         \<and> 6 \<le> length (y_segment vals s e)
         \<and> cf first_order (t_segment idx s e) (y_segment vals s e) (initial_guess idx vals s e)
             = Inr (K_est r, tau_est r, y0_est r)"
      using g cf popt par by auto
    have ex: "L_est r = 1 \<and> Ti_zn r = 2 \<and> Td_zn r = 0.5
           \<and> Kp_zn r = 1.2 * 10 / (5 * (1 + 1 / 10 ^ 9))
           \<and> \<bar>Kp_zn r - 2.4\<bar> < 2.5 / 10 ^ 9
           \<and> 2.3 / 10 ^ 9 < 2.4 - Kp_zn r"
      if k: "K_est r = 5" "tau_est r = 10"
    proof -
      have l1: "L_est r = 1" using L k by simp
      have kp: "Kp_zn r = 1.2 * 10 / (5 * (1 + 1 / 10 ^ 9))" using Kp k by simp
      have b1: "\<bar>(1.2 * 10 / (5 * (1 + 1 / 10 ^ 9)) :: real) - 2.4\<bar> < 2.5 / 10 ^ 9"
        by (simp add: field_simps)
      have b2: "2.3 / 10 ^ 9 < 2.4 - (1.2 * 10 / (5 * (1 + 1 / 10 ^ 9)) :: real)"
        by (simp add: field_simps)
      from l1 kp b1 b2 Ti Td show ?thesis by simp
    qed
    from src L Kp Ti Td ex show ?thesis by blast
  qed
  from fwd bwd show ?thesis by blast
qed

theorem zn_tuning_formulas_witness:
  "fit_of (estimate_column (fitter_returning (5, 10, 2)) ex_idx ex_series)
     = Some (fit_report_of ex_idx ex_series 11 27 (5, 10, 2))
   \<and> K_est (fit_report_of ex_idx ex_series 11 27 (5, 10, 2)) = 5
   \<and> tau_est (fit_report_of ex_idx ex_series 11 27 (5, 10, 2)) = 10
   \<and> L_est (fit_report_of ex_idx ex_series 11 27 (5, 10, 2)) = 1
   \<and> Ti_zn (fit_report_of ex_idx ex_series 11 27 (5, 10, 2)) = 2
   \<and> Td_zn (fit_report_of ex_idx ex_series 11 27 (5, 10, 2)) = 0.5
   \<and> \<bar>Kp_zn (fit_report_of ex_idx ex_series 11 27 (5, 10, 2)) - 2.4\<bar> < 2.5 / 10 ^ 9
   \<and> 2.3 / 10 ^ 9 < 2.4 - Kp_zn (fit_report_of ex_idx ex_series 11 27 (5, 10, 2))"
proof -
  let ?r = "fit_report_of ex_idx ex_series 11 27 (5, 10, 2)"
  have long: "30 \<le> length ex_series" by (simp add: ex_length)
  have seg: "6 \<le> length (y_segment ex_series 11 27)" by (simp add: ex_segment)
  have cf: "fitter_returning (5, 10, 2) first_order (t_segment ex_idx 11 27)
              (y_segment ex_series 11 27) (initial_guess ex_idx ex_series 11 27) = Inr (5, 10, 2)"
    by (simp add: fitter_returning_def)
  note inst = zn_tuning_formulas [of ex_series 11 27 "[]" "fitter_returning (5, 10, 2)" ex_idx
      5 10 2 ?r]
  from inst long ex_detect seg cf obtain r where
    r: "fit_of (estimate_column (fitter_returning (5, 10, 2)) ex_idx ex_series) = Some r"
    and k: "K_est r = 5" "tau_est r = 10"
    by blast
  from r ex_fit_some [of "(5, 10, 2)"] have rr: "r = ?r" by simp
  from inst r k show ?thesis unfolding rr by blast
qed

subsection \<open>The denominator of the model\<close>

text \<open>
  C8, as stated, fails.  The model adds \<open>1e-9\<close> to \<open>tau\<close>; it does not clamp it.  The
  fitter is unconstrained, and at \<open>tau = -1e-9\<close> the denominator \<open>tau + 1e-9\<close> is zero.
\<close>

theorem first_order_zero_denominator_counterexample:
  "first_order 0 5 (- (1 / 10 ^ 9)) 2 = None"
  by (simp add: first_order_def)

text \<open>
  C8, amended.  The model divides by \<open>tau + 1e-9\<close>: the denominator is zero exactly at
  \<open>tau = -1e-9\<close>, and for every \<open>tau \<ge> 0\<close> (in particular \<open>tau = 0\<close>) it is at least
  \<open>1e-9\<close> and the model evaluates to \<open>K (1 - exp (-t / (tau + 1e-9))) + y0\<close>.
\<close>

theorem first_order_defined:
  "(first_order t K tau y0 = None \<longleftrightarrow> tau = - (1 / 10 ^ 9))
   \<and> (0 \<le> tau \<longrightarrow> 1 / 10 ^ 9 \<le> tau + 1 / 10 ^ 9
        \<and> first_order t K tau y0 = Some (K * (1 - exp (- t / (tau + 1 / 10 ^ 9))) + y0))"
  by (auto simp: first_order_def)

theorem first_order_defined_witness:
  "first_order 0 5 0 2 = Some 2 \<and> first_order 0 5 (- (1 / 10 ^ 9)) 2 = None"
  using first_order_defined [of 0 5 0 2] first_order_defined [of 0 5 "- (1 / 10 ^ 9)" 2]
  by simp

subsection \<open>A detected window is not constant\<close>

lemma plateau_end_le: "a \<le> length x - 1 \<Longrightarrow> plateau_end x i a \<le> length x - 1"
proof (induction x i a rule: plateau_end.induct)
  case (1 x i a)
  show ?case
  proof (cases "a < length x - 1 \<and> x ! a = x ! i")
    case True
    then have "a + 1 \<le> length x - 1" by simp
    with True "1.IH" have "plateau_end x i (a + 1) \<le> length x - 1" by simp
    with True show ?thesis by (subst plateau_end.simps) simp
  next
    case False
    with "1.prems" show ?thesis by (subst plateau_end.simps) auto
  qed
qed

lemma local_maxima_from_bound:
  "p \<in> set (local_maxima_from x i) \<Longrightarrow> p < length x - 1"
proof (induction x i arbitrary: p rule: local_maxima_from.induct)
  case (1 x i)
  show ?case
  proof (cases "i < length x - 1")
    case False
    with "1.prems" show ?thesis by (subst (asm) local_maxima_from.simps) simp
  next
    case lt: True
    show ?thesis
    proof (cases "x ! (i - 1) < x ! i")
      case False
      with lt "1.prems" have "p \<in> set (local_maxima_from x (i + 1))"
        by (subst (asm) local_maxima_from.simps) simp
      with lt False "1.IH"(3) show ?thesis by simp
    next
      case up: True
      define ia where "ia = plateau_end x i (i + 1)"
      have ia: "ia \<le> length x - 1"
        unfolding ia_def using lt by (intro plateau_end_le) simp
      have ge: "i + 1 \<le> ia" unfolding ia_def by (rule plateau_end_ge)
      show ?thesis
      proof (cases "x ! ia < x ! i")
        case False
        with lt up "1.prems" have "p \<in> set (local_maxima_from x (i + 1))"
          by (subst (asm) local_maxima_from.simps) (simp add: ia_def Let_def)
        with lt up False "1.IH"(2) [OF lt up ia_def] show ?thesis by simp
      next
        case True
        with lt up "1.prems"
        have "p = (i + (ia - 1)) div 2 \<or> p \<in> set (local_maxima_from x (ia + 1))"
          by (subst (asm) local_maxima_from.simps) (simp add: ia_def Let_def)
        then show ?thesis
        proof
          assume "p = (i + (ia - 1)) div 2"
          with lt ia ge show ?thesis by simp
        next
          assume "p \<in> set (local_maxima_from x (ia + 1))"
          with "1.IH"(1) [OF lt up ia_def True] show ?thesis by simp
        qed
      qed
    qed
  qed
qed

lemma mask_select_subset: "set (mask_select xs m) \<subseteq> set xs"
  by (auto simp: mask_select_def dest: set_zip_leftD)

lemma find_peaks_member:
  assumes "p \<in> set (find_peaks x pmin d)"
  shows "p < length x - 1 \<and> pmin \<le> peak_prominence x p"
proof -
  define sel where "sel = mask_select (local_maxima_1d x)
            (select_by_peak_distance (local_maxima_1d x) (map (\<lambda>p. x ! p) (local_maxima_1d x)) d)"
  have fp: "find_peaks x pmin d = filter (\<lambda>p. pmin \<le> peak_prominence x p) sel"
    unfolding find_peaks_def sel_def Let_def ..
  from assms have pr: "pmin \<le> peak_prominence x p" and ps: "p \<in> set sel"
    unfolding fp by simp_all
  from ps have "p \<in> set (local_maxima_1d x)"
    unfolding sel_def by (rule subsetD [OF mask_select_subset])
  then have "p < length x - 1"
    unfolding local_maxima_1d_def by (rule local_maxima_from_bound)
  with pr show ?thesis by simp
qed

lemma left_min_scan_nonneg:
  "0 \<le> lm \<Longrightarrow> (\<And>j. j < i \<Longrightarrow> 0 \<le> x ! j) \<Longrightarrow> 0 \<le> left_min_scan x peak i lm"
  by (induction i arbitrary: lm) auto

lemma peak_prominence_le:
  assumes "\<And>j. j < length x \<Longrightarrow> 0 \<le> x ! j" and "p < length x"
  shows "peak_prominence x p \<le> x ! p"
proof -
  have "0 \<le> left_min_scan x p (p + 1) (x ! p)"
    by (rule left_min_scan_nonneg) (use assms in auto)
  then have "0 \<le> max (left_min_scan x p (p + 1) (x ! p)) (right_min_scan x p p (x ! p))"
    by simp
  then show ?thesis by (simp add: peak_prominence_def)
qed

lemma length_np_diff: "length (np_diff vals) = length vals - 1"
  by (induction vals rule: np_diff.induct) simp_all

lemma np_diff_nth: "Suc j < length vals \<Longrightarrow> np_diff vals ! j = vals ! Suc j - vals ! j"
proof (induction vals arbitrary: j rule: np_diff.induct)
  case (1 x y ys)
  then show ?case by (cases j) simp_all
qed simp_all

lemma rolling_median3_nonzero:
  assumes p: "p < length d" and nz: "rolling_median3 d ! p \<noteq> 0"
  shows "\<exists>j. j < length d \<and> p - 1 \<le> j \<and> j \<le> p + 1 \<and> d ! j \<noteq> 0"
proof (rule ccontr)
  assume "\<not> ?thesis"
  then have zero: "\<And>j. j < length d \<Longrightarrow> p - 1 \<le> j \<Longrightarrow> j \<le> p + 1 \<Longrightarrow> d ! j = 0" by blast
  let ?w = "py_slice (nat (max 0 (int p - 1))) (p + 2) d"
  have lo: "nat (max 0 (int p - 1)) = p - 1" by simp
  have "v = 0" if "v \<in> set ?w" for v
  proof -
    from that obtain k where k: "k < length ?w" and v: "v = ?w ! k"
      by (auto simp: in_set_conv_nth)
    from k have k1: "k < p + 2 - (p - 1)" and k2: "p - 1 + k < length d"
      unfolding lo by (auto simp: py_slice_def)
    have "?w ! k = d ! (p - 1 + k)"
      unfolding lo using k1 k2 by (simp add: py_slice_def)
    moreover have "d ! (p - 1 + k) = 0"
      using k1 k2 by (intro zero) auto
    ultimately show ?thesis using v by simp
  qed
  then have w: "?w = replicate (length ?w) 0"
    by (simp add: replicate_length_same)
  have "0 < length ?w" unfolding lo using p by (auto simp: py_slice_def)
  then have "np_median ?w = 0"
    by (subst w) (rule np_median_replicate)
  moreover have "rolling_median3 d ! p = np_median ?w"
    using p by (simp add: rolling_median3_def)
  ultimately show False using nz by simp
qed

lemma sum_squares_zero:
  fixes m :: real
  shows "sum_list (map (\<lambda>y. (y - m) ^ 2) ys) = 0 \<Longrightarrow> y \<in> set ys \<Longrightarrow> y = m"
proof (induction ys)
  case Nil
  then show ?case by simp
next
  case (Cons a ys)
  have nn: "0 \<le> sum_list (map (\<lambda>y. (y - m) ^ 2) ys)"
    by (rule sum_list_nonneg) auto
  from Cons.prems(1) have "(a - m) ^ 2 + sum_list (map (\<lambda>y. (y - m) ^ 2) ys) = 0" by simp
  with nn have z: "(a - m) ^ 2 = 0" "sum_list (map (\<lambda>y. (y - m) ^ 2) ys) = 0"
    by (simp_all add: add_nonneg_eq_0_iff)
  from z(1) have "a = m" by simp
  with Cons.IH [OF z(2)] Cons.prems(2) show ?case by auto
qed

lemma ss_tot_pos:
  assumes "a \<in> set ys" "b \<in> set ys" "a \<noteq> b"
  shows "0 < ss_tot ys"
proof -
  have "ss_tot ys \<noteq> 0"
  proof
    assume "ss_tot ys = 0"
    then have z: "sum_list (map (\<lambda>y. (y - np_mean ys) ^ 2) ys) = 0" by (simp add: ss_tot_def)
    from sum_squares_zero [OF z assms(1)] sum_squares_zero [OF z assms(2)] assms(3)
    show False by simp
  qed
  moreover have "0 \<le> ss_tot ys"
    unfolding ss_tot_def by (rule sum_list_nonneg) auto
  ultimately show ?thesis by simp
qed

lemma step_prominence_pos: "0 < step_prominence vals None"
proof -
  have "(0::real) < 1 / 10 ^ 6" by simp
  then show ?thesis
    unfolding step_prominence_def Let_def by (simp add: less_max_iff_disj)
qed

lemma detect_steps_window_varies:
  assumes "(s, e) \<in> set (detect_steps vals None d)"
  shows "\<exists>j. s \<le> j \<and> Suc j \<le> e \<and> Suc j < length vals \<and> vals ! j \<noteq> vals ! Suc j"
proof -
  let ?ds = "smoothed_diff vals"
  let ?x = "map abs ?ds"
  from assms obtain p where p: "p \<in> set (find_peaks ?x (step_prominence vals None) d)"
    and s: "s = nat (max 0 (int p - 8))" and e: "e = min (length vals - 1) (p + 8)"
    by (auto simp: detect_steps_def Let_def split: if_splits)
  have len: "length ?x = length vals - 1"
    by (simp add: smoothed_diff_def rolling_median3_def length_np_diff)
  from find_peaks_member [OF p] have pl: "p < length ?x - 1"
    and pr: "step_prominence vals None \<le> peak_prominence ?x p" by simp_all
  have pl': "p < length ?x" using pl by simp
  have "peak_prominence ?x p \<le> ?x ! p"
    by (rule peak_prominence_le) (use pl' in auto)
  with pr step_prominence_pos [of vals] have "0 < ?x ! p" by linarith
  then have nz: "rolling_median3 (np_diff vals) ! p \<noteq> 0"
    using pl' by (auto simp: smoothed_diff_def)
  have pd: "p < length (np_diff vals)"
    using pl' by (simp add: smoothed_diff_def rolling_median3_def)
  from rolling_median3_nonzero [OF pd nz] obtain j where
    j: "j < length (np_diff vals)" and lo: "p - 1 \<le> j" and hi: "j \<le> p + 1"
    and dj: "np_diff vals ! j \<noteq> 0" by blast
  have sj: "Suc j < length vals" using j by (simp add: length_np_diff)
  from dj np_diff_nth [OF sj] have "vals ! j \<noteq> vals ! Suc j" by simp
  moreover have "s \<le> j" unfolding s using lo by simp
  moreover have "Suc j \<le> e" unfolding e using hi sj by simp
  ultimately show ?thesis using sj by blast
qed

subsection \<open>Goodness of fit\<close>

lemma y_segment_explicit:
  "e + 1 \<le> length vals \<Longrightarrow> y_segment vals s e = map ((!) vals) [s..<e + 1]"
  by (simp add: y_segment_def py_slice_nth)

lemma t_segment_explicit:
  assumes "e + 1 \<le> length idx"
  shows "t_segment idx s e = map (\<lambda>i. real_of_int (idx ! i - idx ! s) / 10 ^ 9) [s..<e + 1]"
proof -
  have len: "e + 1 \<le> length (t_base idx)" using assms by (simp add: t_base_def)
  have "t_segment idx s e = map (\<lambda>i. t_base idx ! i - t_base idx ! s) [s..<e + 1]"
    unfolding t_segment_def py_slice_nth [OF len] by (simp add: comp_def del: upt_Suc)
  also have "\<dots> = map (\<lambda>i. real_of_int (idx ! i - idx ! s) / 10 ^ 9) [s..<e + 1]"
  proof (rule map_cong [OF refl])
    fix i assume "i \<in> set [s..<e + 1]"
    then have i: "i < length idx" and s: "s < length idx" using assms by auto
    show "t_base idx ! i - t_base idx ! s = real_of_int (idx ! i - idx ! s) / 10 ^ 9"
      using i s by (simp add: t_base_def diff_divide_distrib)
  qed
  finally show ?thesis .
qed

lemma ss_tot_explicit:
  "ss_tot (map a l) = (\<Sum>i\<leftarrow>l. (a i - (\<Sum>j\<leftarrow>l. a j) / real (length l)) ^ 2)"
  by (simp add: ss_tot_def np_mean_def comp_def)

lemma ss_res_explicit:
  "ss_res (map a l) (map (\<lambda>i. Some (g i)) l) = Some (\<Sum>i\<leftarrow>l. (a i - g i) ^ 2)"
proof -
  have "None \<notin> set (map (\<lambda>i. Some (g i)) l)" by auto
  moreover have "map (\<lambda>(y, f). (y - the f) ^ 2) (zip (map a l) (map (\<lambda>i. Some (g i)) l))
                 = map (\<lambda>i. (a i - g i) ^ 2) l"
    by (induction l) simp_all
  ultimately show ?thesis unfolding ss_res_def by (simp only: if_False)
qed

lemma ss_res_undefined:
  "l \<noteq> [] \<Longrightarrow> ss_res ys (map (\<lambda>i. None) l) = None"
  by (cases l) (simp_all add: ss_res_def)

lemma fitted_r2_explicit:
  assumes fit: "fit_of (estimate_column cf idx vals) = Some r"
    and len: "length idx = length vals"
  shows "\<exists>s e rest.
          detect_steps vals None 5 = (s, e) # rest \<and> s \<le> e \<and> e < length vals
        \<and> cf first_order (map (\<lambda>i. real_of_int (idx ! i - idx ! s) / 10 ^ 9) [s..<e + 1])
             (map ((!) vals) [s..<e + 1]) (initial_guess idx vals s e)
            = Inr (K_est r, tau_est r, y0_est r)
        \<and> 0 < (\<Sum>i\<leftarrow>[s..<e + 1]. (vals ! i - (\<Sum>j\<leftarrow>[s..<e + 1]. vals ! j) / real (e + 1 - s)) ^ 2)
        \<and> (tau_est r \<noteq> - (1 / 10 ^ 9) \<longrightarrow>
             r2 r = Some (1 - (\<Sum>i\<leftarrow>[s..<e + 1].
                                 (vals ! i - (K_est r * (1 - exp (- (real_of_int (idx ! i - idx ! s) / 10 ^ 9)
                                                                  / (tau_est r + 1 / 10 ^ 9)))
                                              + y0_est r)) ^ 2)
                              / (\<Sum>i\<leftarrow>[s..<e + 1].
                                   (vals ! i - (\<Sum>j\<leftarrow>[s..<e + 1]. vals ! j) / real (e + 1 - s)) ^ 2)))
        \<and> (tau_est r = - (1 / 10 ^ 9) \<longrightarrow> r2 r = None)"
proof -
  from estimate_column_fit [OF fit] obtain s e rest popt where
    long: "30 \<le> length vals" and det: "detect_steps vals None 5 = (s, e) # rest"
    and seg: "6 \<le> length (y_segment vals s e)"
    and cf: "cf first_order (t_segment idx s e) (y_segment vals s e)
               (initial_guess idx vals s e) = Inr popt"
    and r0: "r = fit_report_of idx vals s e popt"
    by blast
  obtain K tau y0 where popt: "popt = (K, tau, y0)" by (cases popt)
  have r: "r = fit_report_of idx vals s e (K, tau, y0)" using r0 popt by simp
  have par: "K_est r = K" "tau_est r = tau" "y0_est r = y0"
    unfolding r by (rule fit_report_of_params)+
  let ?l = "[s..<e + 1]"
  let ?t = "\<lambda>i. real_of_int (idx ! i - idx ! s) / 10 ^ 9"
  let ?g = "\<lambda>i. K * (1 - exp (- ?t i / (tau + 1 / 10 ^ 9))) + y0"
  have mem: "(s, e) \<in> set (detect_steps vals None 5)" by (simp add: det)
  have e1: "e \<le> length vals - 1" by (rule detect_steps_end [OF mem])
  with long have e2: "e + 1 \<le> length vals" and e3: "e < length vals" by simp_all
  from seg have se: "s \<le> e" by (auto simp: y_segment_def py_slice_def)
  have ys: "y_segment vals s e = map ((!) vals) ?l" by (rule y_segment_explicit [OF e2])
  have ts: "t_segment idx s e = map ?t ?l"
    by (rule t_segment_explicit) (use e2 len in simp)
  have cf': "cf first_order (map ?t ?l) (map ((!) vals) ?l) (initial_guess idx vals s e)
             = Inr (K_est r, tau_est r, y0_est r)"
    using cf popt par ys ts by simp
  have r2: "r2 r = r_squared (map ((!) vals) ?l) (map (\<lambda>i. first_order (?t i) K tau y0) ?l)"
    unfolding r fit_report_of_r2 ys ts by (simp add: comp_def del: upt_Suc)
  from detect_steps_window_varies [OF mem] obtain j where
    j: "s \<le> j" "Suc j \<le> e" "vals ! j \<noteq> vals ! Suc j" by blast
  have "j \<in> set ?l" "Suc j \<in> set ?l" using j by auto
  then have "vals ! j \<in> set (map ((!) vals) ?l)" "vals ! Suc j \<in> set (map ((!) vals) ?l)"
    by (simp_all only: set_map image_eqI)
  from ss_tot_pos [OF this j(3)] have pos: "0 < ss_tot (map ((!) vals) ?l)" .
  have tot: "ss_tot (map ((!) vals) ?l)
             = (\<Sum>i\<leftarrow>?l. (vals ! i - (\<Sum>j\<leftarrow>?l. vals ! j) / real (e + 1 - s)) ^ 2)"
    by (simp add: ss_tot_explicit del: upt_Suc)
  have defined: "r2 r = Some (1 - (\<Sum>i\<leftarrow>?l. (vals ! i - ?g i) ^ 2) / ss_tot (map ((!) vals) ?l))"
    if "tau \<noteq> - (1 / 10 ^ 9)"
  proof -
    have "tau + 1 / 10 ^ 9 \<noteq> 0" using that by linarith
    then have "map (\<lambda>i. first_order (?t i) K tau y0) ?l = map (\<lambda>i. Some (?g i)) ?l"
      by (simp add: first_order_def del: upt_Suc)
    then have "ss_res (map ((!) vals) ?l) (map (\<lambda>i. first_order (?t i) K tau y0) ?l)
               = Some (\<Sum>i\<leftarrow>?l. (vals ! i - ?g i) ^ 2)"
      by (simp only: ss_res_explicit)
    with pos show ?thesis unfolding r2 r_squared_def by simp
  qed
  have undefined: "r2 r = None" if "tau = - (1 / 10 ^ 9)"
  proof -
    have eq: "map (\<lambda>i. first_order (?t i) K tau y0) ?l = map (\<lambda>i. None) ?l"
      using that by (simp add: first_order_def del: upt_Suc)
    have ne: "?l \<noteq> []" using se by simp
    have "ss_res (map ((!) vals) ?l) (map (\<lambda>i. first_order (?t i) K tau y0) ?l) = None"
      unfolding eq by (rule ss_res_undefined [OF ne])
    then show ?thesis unfolding r2 r_squared_def by simp
  qed
  from det se e3 cf' pos defined undefined show ?thesis
    unfolding tot par by blast
qed

text \<open>
  C6.  For every fitted segment (samples \<open>s..e\<close> of the series, times in seconds from the
  first of them) and the parameters \<open>K\<close>, \<open>tau\<close>, \<open>y0\<close> the fitter returned for it, the
  reported goodness of fit is \<open>1 - ss_res / ss_tot\<close>, where \<open>ss_res\<close> sums the squared
  distances of the samples from the fitted curve \<open>K (1 - exp (-t / (tau + 1e-9))) + y0\<close>
  and \<open>ss_tot\<close> those from the mean of the samples; nothing clamps the value, so a
  negative one is reported as it is.  The guard reports not-a-number when \<open>ss_tot\<close> is
  zero instead of dividing; for a fitted segment \<open>ss_tot\<close> is positive, since a detected
  window holds two neighbouring samples that differ.  At \<open>tau = -1e-9\<close> the fitted curve
  is undefined at its first sample and so is the reported value.
  (Real arithmetic; rounding is not represented.)
\<close>

theorem r_squared_cases:
  "(fit_of (estimate_column cf idx vals) = Some r \<and> length idx = length vals \<longrightarrow>
      (\<exists>s e rest.
          detect_steps vals None 5 = (s, e) # rest \<and> s \<le> e \<and> e < length vals
        \<and> cf first_order (map (\<lambda>i. real_of_int (idx ! i - idx ! s) / 10 ^ 9) [s..<e + 1])
             (map ((!) vals) [s..<e + 1]) (initial_guess idx vals s e)
            = Inr (K_est r, tau_est r, y0_est r)
        \<and> 0 < (\<Sum>i\<leftarrow>[s..<e + 1]. (vals ! i - (\<Sum>j\<leftarrow>[s..<e + 1]. vals ! j) / real (e + 1 - s)) ^ 2)
        \<and> (tau_est r \<noteq> - (1 / 10 ^ 9) \<longrightarrow>
             r2 r = Some (1 - (\<Sum>i\<leftarrow>[s..<e + 1].
                                 (vals ! i - (K_est r * (1 - exp (- (real_of_int (idx ! i - idx ! s) / 10 ^ 9)
                                                                  / (tau_est r + 1 / 10 ^ 9)))
                                              + y0_est r)) ^ 2)
                              / (\<Sum>i\<leftarrow>[s..<e + 1].
                                   (vals ! i - (\<Sum>j\<leftarrow>[s..<e + 1]. vals ! j) / real (e + 1 - s)) ^ 2)))
        \<and> (tau_est r = - (1 / 10 ^ 9) \<longrightarrow> r2 r = None)))
   \<and> ((\<Sum>y\<leftarrow>ys. (y - sum_list ys / real (length ys)) ^ 2) = 0 \<longrightarrow> r_squared ys fs = None)"
proof -
  have guard: "r_squared ys fs = None" if "(\<Sum>y\<leftarrow>ys. (y - sum_list ys / real (length ys)) ^ 2) = 0"
    using that by (simp add: r_squared_def ss_tot_def np_mean_def)
  from fitted_r2_explicit [of cf idx vals r] guard show ?thesis by blast
qed

lemma ex_idx_length: "length ex_idx = length ex_series"
  by (simp add: ex_idx_def ex_length)

lemma ex_ss_tot: "(\<Sum>i\<leftarrow>[11..<28]. (ex_series ! i - (\<Sum>j\<leftarrow>[11..<28]. ex_series ! j) / 17) ^ 2) = 6700 / 17"
  by code_simp

lemma ex_ss_res_flat: "(\<Sum>i\<leftarrow>[11..<28]. (ex_series ! i - 100) ^ 2) = 155725"
  by code_simp

theorem r_squared_cases_witness:
  "r2 (fit_report_of ex_idx ex_series 11 27 (0, 1, 100)) = Some (- (105625 / 268))
   \<and> r2 (fit_report_of ex_idx ex_series 11 27 (5, 10, 2))
     = Some (1 - (\<Sum>i\<leftarrow>[11..<28].
                    (ex_series ! i - (5 * (1 - exp (- (real_of_int (ex_idx ! i - ex_idx ! 11) / 10 ^ 9)
                                                    / (10 + 1 / 10 ^ 9)))
                                      + 2)) ^ 2)
                 / (6700 / 17))
   \<and> r_squared (replicate 6 3) (replicate 6 (Some 3)) = None"
proof -
  have a: "r2 (fit_report_of ex_idx ex_series 11 27 (K, tau, y0))
     = Some (1 - (\<Sum>i\<leftarrow>[11..<28].
                    (ex_series ! i - (K * (1 - exp (- (real_of_int (ex_idx ! i - ex_idx ! 11) / 10 ^ 9)
                                                    / (tau + 1 / 10 ^ 9)))
                                      + y0)) ^ 2)
                 / (6700 / 17))"
    if tau: "tau \<noteq> - (1 / 10 ^ 9)" for K tau y0
  proof -
    let ?r = "fit_report_of ex_idx ex_series 11 27 (K, tau, y0)"
    note inst = r_squared_cases [of "fitter_returning (K, tau, y0)" ex_idx ex_series ?r]
    from inst ex_fit_some [of "(K, tau, y0)"] ex_idx_length obtain s e rest where
      det: "detect_steps ex_series None 5 = (s, e) # rest"
      and val: "tau_est ?r \<noteq> - (1 / 10 ^ 9) \<longrightarrow>
             r2 ?r = Some (1 - (\<Sum>i\<leftarrow>[s..<e + 1].
                                 (ex_series ! i - (K_est ?r * (1 - exp (- (real_of_int (ex_idx ! i - ex_idx ! s) / 10 ^ 9)
                                                                  / (tau_est ?r + 1 / 10 ^ 9)))
                                              + y0_est ?r)) ^ 2)
                              / (\<Sum>i\<leftarrow>[s..<e + 1].
                                   (ex_series ! i - (\<Sum>j\<leftarrow>[s..<e + 1]. ex_series ! j) / real (e + 1 - s)) ^ 2))"
      by blast
    from det ex_detect have se: "s = 11" "e = 27" by simp_all
    have n: "(27::nat) + 1 = 28" "real (28 - 11) = 17" by simp_all
    from val tau show ?thesis
      unfolding se fit_report_of_params n ex_ss_tot by simp
  qed
  have "(1::real) \<noteq> - (1 / 10 ^ 9)" by simp
  from a [OF this, of 0 100]
  have "r2 (fit_report_of ex_idx ex_series 11 27 (0, 1, 100))
      = Some (1 - (\<Sum>i\<leftarrow>[11..<28]. (ex_series ! i - 100) ^ 2) / (6700 / 17))"
    by (simp del: upt_Suc upt_rec_numeral)
  then have neg: "r2 (fit_report_of ex_idx ex_series 11 27 (0, 1, 100))
      = Some (- (105625 / 268))"
    unfolding ex_ss_res_flat by simp
  have "(10::real) \<noteq> - (1 / 10 ^ 9)" by simp
  note curve = a [OF this, of 5 2]
  have z: "(\<Sum>y\<leftarrow>replicate 6 (3::real). (y - sum_list (replicate 6 3) / real (length (replicate 6 (3::real)))) ^ 2) = 0"
    by code_simp
  from r_squared_cases [of _ _ _ _ "replicate 6 3" "replicate 6 (Some 3)"] z
  have flat: "r_squared (replicate 6 3) (replicate 6 (Some 3)) = None" by blast
  from neg curve flat show ?thesis by blast
qed

section \<open>The dataset and its cleaning\<close>

text \<open>
  The merged dataset is a pandas frame: a time index (nanoseconds since the epoch) and
  named columns of the length of the index.  A cell is a real number or missing
  (\<open>None\<close>, pandas' NaN); columns are numeric and their labels are strings; a label is
  looked up as the first column that carries it.  The pandas operations the analyses call
  are written out for such frames.
\<close>

type_synonym cell = "real option"

record frame =
  index :: "int list"
  columns :: "(string \<times> cell list) list"

definition nrows :: "frame \<Rightarrow> nat" where
  "nrows f = length (index f)"

definition frame_empty :: "frame \<Rightarrow> bool" where
  \<comment> \<open>\<open>DataFrame.empty\<close>: no row or no column\<close>
  "frame_empty f \<longleftrightarrow> index f = [] \<or> columns f = []"

definition mask_rows :: "bool list \<Rightarrow> frame \<Rightarrow> frame" where
  "mask_rows m f =
     \<lparr>index = mask_select (index f) m,
      columns = map (\<lambda>(c, vs). (c, mask_select vs m)) (columns f)\<rparr>"

definition select_cols :: "string list \<Rightarrow> frame \<Rightarrow> frame option" where
  \<comment> \<open>\<open>df[selected]\<close>; \<open>None\<close> is the \<open>KeyError\<close> for a label that is not a column\<close>
  "select_cols sel f =
     (if list_all (\<lambda>c. map_of (columns f) c \<noteq> None) sel
      then Some \<lparr>index = index f, columns = map (\<lambda>c. (c, the (map_of (columns f) c))) sel\<rparr>
      else None)"

definition loc_window :: "int \<Rightarrow> int \<Rightarrow> string list \<Rightarrow> frame \<Rightarrow> frame option" where
  \<comment> \<open>\<open>df.loc[(df.index >= start_time) & (df.index <= end_time), selected]\<close>\<close>
  "loc_window start_time end_time sel f =
     select_cols sel (mask_rows (map (\<lambda>t. start_time \<le> t \<and> t \<le> end_time) (index f)) f)"

fun prev_valid :: "cell list \<Rightarrow> nat \<Rightarrow> (nat \<times> real) option" where
  \<comment> \<open>the last valid entry before position \<open>k\<close>\<close>
  "prev_valid vs 0 = None"
| "prev_valid vs (Suc k) =
     (case vs ! k of Some v \<Rightarrow> Some (k, v) | None \<Rightarrow> prev_valid vs k)"

function next_valid :: "cell list \<Rightarrow> nat \<Rightarrow> (nat \<times> real) option" where
  \<comment> \<open>the first valid entry at position \<open>k\<close> or later\<close>
  "next_valid vs k =
     (if k < length vs
      then (case vs ! k of Some v \<Rightarrow> Some (k, v) | None \<Rightarrow> next_valid vs (k + 1))
      else None)"
  by pat_completeness auto
termination
  by (relation "measure (\<lambda>(vs, k). length vs - k)") auto

declare next_valid.simps [simp del]

definition interpolate_col :: "cell list \<Rightarrow> cell list" where
  \<comment> \<open>\<open>interpolate()\<close> with its defaults: linear between valid neighbours on equally
      spaced positions, the last valid value carried forward, leading gaps left missing\<close>
  "interpolate_col vs =
     map (\<lambda>k. case vs ! k of
                 Some v \<Rightarrow> Some v
               | None \<Rightarrow>
                   (case prev_valid vs k of
                      None \<Rightarrow> None
                    | Some (i, a) \<Rightarrow>
                        (case next_valid vs k of
                           None \<Rightarrow> Some a
                         | Some (j, b) \<Rightarrow> Some (a + (b - a) * real (k - i) / real (j - i)))))
         [0..<length vs]"

definition interpolate :: "frame \<Rightarrow> frame" where
  "interpolate f = f\<lparr>columns := map (\<lambda>(c, vs). (c, interpolate_col vs)) (columns f)\<rparr>"

definition dropna :: "frame \<Rightarrow> frame" where
  \<comment> \<open>\<open>dropna()\<close>: a row with any missing cell is dropped\<close>
  "dropna f =
     mask_rows (map (\<lambda>k. list_all (\<lambda>(c, vs). vs ! k \<noteq> None) (columns f)) [0..<nrows f]) f"

definition clean_window :: "int \<Rightarrow> int \<Rightarrow> string list \<Rightarrow> frame \<Rightarrow> frame option" where
  \<comment> \<open>the two lines every analysis starts with: the window of the selected columns,
      then \<open>df.interpolate().dropna()\<close>\<close>
  "clean_window start_time end_time sel f =
     map_option (\<lambda>df. dropna (interpolate df)) (loc_window start_time end_time sel f)"

definition column_values :: "frame \<Rightarrow> string \<Rightarrow> cell list" where
  \<comment> \<open>\<open>df[col]\<close> for a label of the frame\<close>
  "column_values f c = (case map_of (columns f) c of Some vs \<Rightarrow> vs | None \<Rightarrow> [])"

datatype status = MissingPackage | NoDataLoaded | TooFewSelected | InsufficientData

datatype 'a run =
    Status status  \<comment> \<open>a status-bar message, and the analysis returns\<close>
  | Raised  \<comment> \<open>an exception the analysis does not catch\<close>
  | Report 'a

section \<open>Causality ranking (\<open>compute_granger\<close>)\<close>

type_synonym granger_test = "cell list \<Rightarrow> cell list \<Rightarrow> nat \<Rightarrow> string + (nat \<times> real) list"
  \<comment> \<open>\<open>grangercausalitytests\<close> on the columns \<open>[y, x]\<close> with \<open>maxlag\<close>: the exception raised,
      or the \<open>ssr_ftest\<close> p-value of each lag of the result, in the order of the result\<close>

datatype granger_line =
    BestLag string string nat real
  | PairError string string string

definition maxlag_of :: "nat \<Rightarrow> nat" where
  \<comment> \<open>\<open>min(10, max(1, int(len(df_clean) / 5)))\<close>\<close>
  "maxlag_of n = min 10 (max 1 (nat \<lfloor>real n / 5\<rfloor>))"

definition pair_line :: "granger_test \<Rightarrow> frame \<Rightarrow> string list \<Rightarrow> nat \<Rightarrow> nat \<Rightarrow> nat \<Rightarrow> granger_line" where
  \<comment> \<open>the body of the inner loop with its \<open>try\<close>; \<open>sorted(pvals, key=...)[0]\<close> raises on an
      empty list\<close>
  "pair_line test df_clean selected maxlag i j =
     (let x = column_values df_clean (selected ! i);
          y = column_values df_clean (selected ! j)
      in case test y x maxlag of
           Inl err \<Rightarrow> PairError (selected ! i) (selected ! j) err
         | Inr pvals \<Rightarrow>
             (case sort_key snd pvals of
                [] \<Rightarrow> PairError (selected ! i) (selected ! j) ''list index out of range''
              | best # _ \<Rightarrow> BestLag (selected ! i) (selected ! j) (fst best) (snd best)))"

definition compute_granger ::
  "granger_test option \<Rightarrow> frame \<Rightarrow> string list \<Rightarrow> int \<Rightarrow> int \<Rightarrow> granger_line list run" where
  "compute_granger grangercausalitytests merged_data selected start_time end_time =
     (case grangercausalitytests of
        None \<Rightarrow> Status MissingPackage
      | Some test \<Rightarrow>
          if frame_empty merged_data then Status NoDataLoaded
          else if length selected < 2 then Status TooFewSelected
          else case clean_window start_time end_time selected merged_data of
                 None \<Rightarrow> Raised
               | Some df_clean \<Rightarrow>
                   if frame_empty df_clean then Status InsufficientData
                   else let maxlag = maxlag_of (nrows df_clean)
                        in Report [pair_line test df_clean selected maxlag i j.
                                     i \<leftarrow> [0..<length selected],
                                     j \<leftarrow> [0..<length selected], i \<noteq> j])"

subsection \<open>Properties of the ranking\<close>

lemma maxlag_of_clamp: "maxlag_of n = min 10 (max 1 (n div 5))"
proof -
  have "\<lfloor>real n / 5\<rfloor> = int (n div 5)"
    using floor_divide_of_nat_eq [of n 5, where ?'a = real] by simp
  then show ?thesis by (simp add: maxlag_of_def)
qed

lemma pair_line_error:
  assumes "test (column_values df (selected ! j)) (column_values df (selected ! i)) maxlag = Inl err"
  shows "pair_line test df selected maxlag i j = PairError (selected ! i) (selected ! j) err"
  using assms by (simp add: pair_line_def)

lemma pair_line_best:
  assumes t: "test (column_values df (selected ! j)) (column_values df (selected ! i)) maxlag = Inr pvals"
    and ne: "pvals \<noteq> []"
  shows "\<exists>lag p. pair_line test df selected maxlag i j = BestLag (selected ! i) (selected ! j) lag p
           \<and> (lag, p) \<in> set pvals \<and> (\<forall>(l, q) \<in> set pvals. p \<le> q)"
proof -
  from ne have "sort_key snd pvals \<noteq> []"
    by (metis length_sort list.size(3) length_0_conv)
  then obtain best rest where srt: "sort_key snd pvals = best # rest"
    by (cases "sort_key snd pvals") auto
  have mem: "best \<in> set pvals"
    using set_sort [of snd pvals] srt by (metis list.set_intros(1))
  have "sorted (map snd (sort_key snd pvals))" by (rule sorted_sort_key)
  then have le: "\<forall>lq \<in> set (sort_key snd pvals). snd best \<le> snd lq"
    unfolding srt by auto
  then have "\<forall>lq \<in> set pvals. snd best \<le> snd lq" by simp
  then have min: "\<forall>(l, q) \<in> set pvals. snd best \<le> q" by auto
  have "pair_line test df selected maxlag i j
        = BestLag (selected ! i) (selected ! j) (fst best) (snd best)"
    using t srt by (simp add: pair_line_def)
  moreover have "(fst best, snd best) \<in> set pvals" using mem by simp
  ultimately show ?thesis using min by blast
qed

lemma ordered_pairs_length:
  "length [f i j. i \<leftarrow> [0..<k], j \<leftarrow> [0..<k], i \<noteq> j] = k * (k - 1)"
proof -
  have inner: "length (concat (map (\<lambda>j. if i \<noteq> j then [f i j] else []) [0..<k])) = k - 1"
    if "i < k" for i
  proof -
    have "concat (map (\<lambda>j. if i \<noteq> j then [f i j] else []) [0..<k])
          = map (f i) (filter (\<lambda>j. i \<noteq> j) [0..<k])"
      by (induction k) auto
    moreover have "length (filter (\<lambda>j. i \<noteq> j) [0..<k]) = card ({j. i \<noteq> j} \<inter> set [0..<k])"
      by (rule distinct_length_filter) simp
    moreover have "{j. i \<noteq> j} \<inter> set [0..<k] = {0..<k} - {i}" by auto
    moreover have "card ({0..<k} - {i}) = k - 1" using that by simp
    ultimately show ?thesis by simp
  qed
  have "length [f i j. i \<leftarrow> [0..<k], j \<leftarrow> [0..<k], i \<noteq> j]
        = sum_list (map (\<lambda>i. length (concat (map (\<lambda>j. if i \<noteq> j then [f i j] else []) [0..<k]))) [0..<k])"
    by (simp add: length_concat comp_def)
  also have "\<dots> = sum_list (map (\<lambda>i. k - 1) [0..<k])"
    by (rule arg_cong [where f = sum_list], rule map_cong) (simp_all add: inner)
  also have "\<dots> = k * (k - 1)" by (simp add: sum_list_triv)
  finally show ?thesis .
qed

lemma compute_granger_report:
  assumes "compute_granger (Some test) merged selected start_time end_time = Report lines"
  shows "\<exists>df. clean_window start_time end_time selected merged = Some df \<and> \<not> frame_empty df
       \<and> lines = [pair_line test df selected (maxlag_of (nrows df)) i j.
                     i \<leftarrow> [0..<length selected], j \<leftarrow> [0..<length selected], i \<noteq> j]"
proof (cases "clean_window start_time end_time selected merged")
  case None
  with assms show ?thesis by (simp add: compute_granger_def split: if_splits)
next
  case (Some df)
  with assms show ?thesis by (simp add: compute_granger_def Let_def split: if_splits)
qed

subsection \<open>An example dataset\<close>

text \<open>
  Twelve rows one second apart.  Column \<open>a_x\<close> has gaps: the leading one stays missing
  after interpolation (that row is dropped), the inner ones are filled linearly and the
  trailing one repeats the last value.  The example test fails on the pair whose target
  is \<open>a_x\<close> and returns p-values \<open>0.11\<close>, \<open>0.01\<close>, \<dots> for the lags \<open>1, 2, \<dots>\<close> otherwise.
\<close>

definition ex_frame :: frame where
  "ex_frame = \<lparr>index = map (\<lambda>i. int i * 10 ^ 9) [0..<12],
     columns = [(''a_x'', [None, Some 1, None, None, Some 4, Some 5, Some 6, Some 7,
                           Some 8, Some 9, Some 10, None]),
                (''a_y'', map (\<lambda>i. Some (real (i * i))) [0..<12]),
                (''b_z'', map (\<lambda>i. Some (real i)) [0..<12])]\<rparr>"

definition ex_test :: granger_test where
  "ex_test y x m =
     (if y ! 1 = Some 2 then Inl ''singular matrix''
      else Inr (map (\<lambda>l. (l, \<bar>real l - 2\<bar> / 10 + 1 / 100)) [1..<m + 1]))"

definition ex_clean :: frame where
  "ex_clean = \<lparr>index = map (\<lambda>i. int i * 10 ^ 9) [1..<12],
     columns = [(''a_x'', [Some 1, Some 2, Some 3, Some 4, Some 5, Some 6, Some 7,
                           Some 8, Some 9, Some 10, Some 10]),
                (''a_y'', map (\<lambda>i. Some (real (i * i))) [1..<12])]\<rparr>"

lemma ex_clean_window:
  "clean_window 0 (20 * 10 ^ 9) [''a_x'', ''a_y''] ex_frame = Some ex_clean"
  by code_simp

lemma ex_granger:
  "compute_granger (Some ex_test) ex_frame [''a_x'', ''a_y''] 0 (20 * 10 ^ 9)
   = Report [BestLag ''a_x'' ''a_y'' 2 (1 / 100), PairError ''a_y'' ''a_x'' ''singular matrix'']"
  by code_simp

lemma ordered_pairs_mem:
  assumes "i < k" "j < k" "i \<noteq> j"
  shows "f i j \<in> set [f i j. i \<leftarrow> [0..<k], j \<leftarrow> [0..<k], i \<noteq> j]"
  by (simp, rule bexI [of _ i], rule bexI [of _ j], simp_all add: assms)

text \<open>
  C9.  In every causality run that reaches the tests, the cleaned data has \<open>n > 0\<close> rows
  and the maximum lag is \<open>min(10, max(1, n div 5))\<close>.  The report has one line per
  ordered pair of distinct positions of the selection.  For each pair: if the test
  fails, the line is an error line for that pair carrying the failure; if the test returns
  p-values, the line reports a lag whose p-value is the smallest of those returned, and
  when the test returns the lags \<open>1..maxlag\<close> the reported lag is one of them.  The line
  of a pair depends on the test of that pair only, so a failure leaves the other lines
  as they are.
\<close>

theorem granger_ranking:
  assumes "compute_granger (Some test) merged selected start_time end_time = Report lines"
  shows "\<exists>df. clean_window start_time end_time selected merged = Some df
       \<and> 0 < nrows df
       \<and> maxlag_of (nrows df) = min 10 (max 1 (nrows df div 5))
       \<and> length lines = length selected * (length selected - 1)
       \<and> (\<forall>i < length selected. \<forall>j < length selected. i \<noteq> j \<longrightarrow>
            pair_line test df selected (maxlag_of (nrows df)) i j \<in> set lines
            \<and> (case test (column_values df (selected ! j)) (column_values df (selected ! i))
                       (maxlag_of (nrows df)) of
                 Inl err \<Rightarrow>
                   pair_line test df selected (maxlag_of (nrows df)) i j
                   = PairError (selected ! i) (selected ! j) err
               | Inr pvals \<Rightarrow>
                   pvals \<noteq> [] \<longrightarrow>
                   (\<exists>lag p. pair_line test df selected (maxlag_of (nrows df)) i j
                              = BestLag (selected ! i) (selected ! j) lag p
                      \<and> (lag, p) \<in> set pvals
                      \<and> (\<forall>(l, q) \<in> set pvals. p \<le> q)
                      \<and> (map fst pvals = [1..<maxlag_of (nrows df) + 1] \<longrightarrow>
                           1 \<le> lag \<and> lag \<le> maxlag_of (nrows df)))))"
proof -
  from compute_granger_report [OF assms] obtain df where
    cw: "clean_window start_time end_time selected merged = Some df"
    and ne: "\<not> frame_empty df"
    and lines: "lines = [pair_line test df selected (maxlag_of (nrows df)) i j.
                     i \<leftarrow> [0..<length selected], j \<leftarrow> [0..<length selected], i \<noteq> j]"
    by blast
  let ?m = "maxlag_of (nrows df)"
  have rows: "0 < nrows df" using ne by (simp add: frame_empty_def nrows_def)
  have len: "length lines = length selected * (length selected - 1)"
    unfolding lines by (rule ordered_pairs_length)
  have pairs: "pair_line test df selected ?m i j \<in> set lines
            \<and> (case test (column_values df (selected ! j)) (column_values df (selected ! i)) ?m of
                 Inl err \<Rightarrow>
                   pair_line test df selected ?m i j = PairError (selected ! i) (selected ! j) err
               | Inr pvals \<Rightarrow>
                   pvals \<noteq> [] \<longrightarrow>
                   (\<exists>lag p. pair_line test df selected ?m i j
                              = BestLag (selected ! i) (selected ! j) lag p
                      \<and> (lag, p) \<in> set pvals
                      \<and> (\<forall>(l, q) \<in> set pvals. p \<le> q)
                      \<and> (map fst pvals = [1..<?m + 1] \<longrightarrow> 1 \<le> lag \<and> lag \<le> ?m)))"
    if ij: "i < length selected" "j < length selected" "i \<noteq> j" for i j
  proof -
    have mem: "pair_line test df selected ?m i j \<in> set lines"
      unfolding lines by (rule ordered_pairs_mem [OF ij])
    show ?thesis
    proof (cases "test (column_values df (selected ! j)) (column_values df (selected ! i)) ?m")
      case (Inl err)
      with mem pair_line_error [where test = test and df = df and selected = selected
          and i = i and j = j, OF Inl] show ?thesis by simp
    next
      case (Inr pvals)
      show ?thesis
      proof (cases "pvals = []")
        case True
        with mem Inr show ?thesis by simp
      next
        case False
        from pair_line_best [where test = test and df = df and selected = selected
            and i = i and j = j, OF Inr False] obtain lag p where
          b: "pair_line test df selected ?m i j = BestLag (selected ! i) (selected ! j) lag p"
          and lp: "(lag, p) \<in> set pvals" and mn: "\<forall>(l, q) \<in> set pvals. p \<le> q"
          by blast
        have rng: "1 \<le> lag \<and> lag \<le> ?m" if keys: "map fst pvals = [1..<?m + 1]"
        proof -
          from lp have "lag \<in> set (map fst pvals)" by force
          then show ?thesis unfolding keys by auto
        qed
        from b lp mn rng mem Inr show ?thesis by auto
      qed
    qed
  qed
  from cw rows len pairs maxlag_of_clamp [of "nrows df"] show ?thesis by blast
qed

theorem granger_ranking_witness:
  "compute_granger (Some ex_test) ex_frame [''a_x'', ''a_y''] 0 (20 * 10 ^ 9)
     = Report [BestLag ''a_x'' ''a_y'' 2 (1 / 100), PairError ''a_y'' ''a_x'' ''singular matrix'']
   \<and> clean_window 0 (20 * 10 ^ 9) [''a_x'', ''a_y''] ex_frame = Some ex_clean
   \<and> nrows ex_clean = 11
   \<and> maxlag_of (nrows ex_clean) = 2
   \<and> length [BestLag ''a_x'' ''a_y'' 2 (1 / 100), PairError ''a_y'' ''a_x'' ''singular matrix'']
       = length [''a_x'', ''a_y''] * (length [''a_x'', ''a_y''] - 1)"
proof -
  have n: "nrows ex_clean = 11" by code_simp
  from granger_ranking [OF ex_granger] ex_clean_window
  have "maxlag_of (nrows ex_clean) = min 10 (max 1 (nrows ex_clean div 5))"
    and "length [BestLag ''a_x'' ''a_y'' 2 (1 / 100), PairError ''a_y'' ''a_x'' ''singular matrix'']
       = length [''a_x'', ''a_y''] * (length [''a_x'', ''a_y''] - 1)"
    by auto
  with n ex_granger ex_clean_window show ?thesis by simp
qed

section \<open>Fuzzy rule mining (\<open>generate_fuzzy_rules\<close>)\<close>

datatype label = Low | Medium | High

definition quantile :: "real \<Rightarrow> cell list \<Rightarrow> cell" where
  \<comment> \<open>\<open>quantile(q)\<close> of one column, linear interpolation between the two nearest order
      statistics; missing cells are skipped, and a column without a value has no quantile\<close>
  "quantile q col =
     (let s = sort (map the (filter (\<lambda>c. c \<noteq> None) col))
      in if s = [] then None
         else let h = real (length s - 1) * q;
                  lo = nat \<lfloor>h\<rfloor>;
                  hi = nat \<lceil>h\<rceil>
              in Some (s ! lo + (h - real lo) * (s ! hi - s ! lo)))"

definition le_cell :: "cell \<Rightarrow> cell \<Rightarrow> bool" where
  \<comment> \<open>\<open><=\<close> on floats: false as soon as one side is NaN\<close>
  "le_cell a b = (case (a, b) of (Some x, Some y) \<Rightarrow> x \<le> y | _ \<Rightarrow> False)"

definition fuzzify_val :: "cell \<Rightarrow> cell \<Rightarrow> cell \<Rightarrow> label" where
  "fuzzify_val lo hi val =
     (if le_cell val lo then Low else if le_cell hi val then High else Medium)"

type_synonym rule_key = "label list \<times> label"

fun dict_incr :: "'k \<Rightarrow> ('k \<times> nat) list \<Rightarrow> ('k \<times> nat) list" where
  \<comment> \<open>\<open>d[key] = d.get(key, 0) + 1\<close> on a dictionary in insertion order\<close>
  "dict_incr k [] = [(k, 1)]"
| "dict_incr k ((k', c) # kvs) =
     (if k = k' then (k', c + 1) # kvs else (k', c) # dict_incr k kvs)"

definition rule_key_of :: "frame \<Rightarrow> string list \<Rightarrow> nat \<Rightarrow> rule_key" where
  \<comment> \<open>the key of row \<open>idx\<close>: the labels of the inputs, in selection order, and of the output\<close>
  "rule_key_of df_clean selected idx =
     (let inputs = butlast selected;
          output = last selected;
          fuzz = (\<lambda>col. fuzzify_val (quantile (33 / 100) (column_values df_clean col))
                                     (quantile (66 / 100) (column_values df_clean col))
                                     (column_values df_clean col ! idx))
      in (map fuzz inputs, fuzz output))"

definition rules_count :: "frame \<Rightarrow> string list \<Rightarrow> (rule_key \<times> nat) list" where
  "rules_count df_clean selected =
     fold (\<lambda>idx d. dict_incr (rule_key_of df_clean selected idx) d) [0..<nrows df_clean] []"

definition sorted_rules :: "(rule_key \<times> nat) list \<Rightarrow> (rule_key \<times> nat) list" where
  \<comment> \<open>\<open>sorted(rules_count.items(), key=lambda x: x[1], reverse=True)\<close>; the sort is
      stable, also when reversed\<close>
  "sorted_rules rc = sort_key (\<lambda>kc. - int (snd kc)) rc"

definition generate_fuzzy_rules ::
  "frame \<Rightarrow> string list \<Rightarrow> int \<Rightarrow> int \<Rightarrow> nat \<Rightarrow> (rule_key \<times> nat) list run" where
  "generate_fuzzy_rules merged_data selected start_time end_time top_k =
     (if frame_empty merged_data then Status NoDataLoaded
      else if length selected < 2 then Status TooFewSelected
      else case clean_window start_time end_time selected merged_data of
             None \<Rightarrow> Raised
           | Some df_clean \<Rightarrow>
               if frame_empty df_clean then Status InsufficientData
               else Report (take top_k (sorted_rules (rules_count df_clean selected))))"

text \<open>The count a dictionary holds for a key (zero when the key is absent).\<close>

definition count_of :: "('k \<times> nat) list \<Rightarrow> 'k \<Rightarrow> nat" where
  "count_of d k = (case map_of d k of None \<Rightarrow> 0 | Some c \<Rightarrow> c)"

text \<open>A dataset of one row.\<close>

definition one_row :: frame where
  "one_row = \<lparr>index = [0], columns = [(''a_in'', [Some 1]), (''a_out'', [Some 2])]\<rparr>"


lemma dict_incr_sum: "sum_list (map snd (dict_incr k d)) = sum_list (map snd d) + 1"
  by (induction d) auto

lemma dict_incr_count: "count_of (dict_incr k d) k' = count_of d k' + (if k' = k then 1 else 0)"
  by (induction d) (auto simp: count_of_def)

lemma fold_dict_incr_sum:
  "sum_list (map snd (fold (\<lambda>i d. dict_incr (f i) d) xs d0))
   = sum_list (map snd d0) + length xs"
  by (induction xs arbitrary: d0) (simp_all add: dict_incr_sum)

lemma fold_dict_incr_count:
  "count_of (fold (\<lambda>i d. dict_incr (f i) d) xs d0) k
   = count_of d0 k + length (filter (\<lambda>i. f i = k) xs)"
  by (induction xs arbitrary: d0) (auto simp: dict_incr_count)

lemma rules_count_sum: "sum_list (map snd (rules_count df selected)) = nrows df"
  by (simp add: rules_count_def fold_dict_incr_sum)

lemma rules_count_count:
  "count_of (rules_count df selected) k
   = length (filter (\<lambda>idx. rule_key_of df selected idx = k) [0..<nrows df])"
proof -
  have "count_of ([] :: (rule_key \<times> nat) list) k = 0" by (simp add: count_of_def)
  then show ?thesis by (simp add: rules_count_def fold_dict_incr_count)
qed

lemma insort_key_sum:
  fixes g :: "'a \<Rightarrow> nat"
  shows "sum_list (map g (insort_key f x xs)) = g x + sum_list (map g xs)"
  by (induction xs) auto

lemma sort_key_sum:
  fixes g :: "'a \<Rightarrow> nat"
  shows "sum_list (map g (sort_key f xs)) = sum_list (map g xs)"
  by (induction xs) (simp_all add: insort_key_sum)

lemma sorted_rules_sum: "sum_list (map snd (sorted_rules rc)) = sum_list (map snd rc)"
  by (simp add: sorted_rules_def sort_key_sum)

lemma mask_rows_columns: "length (columns (mask_rows m f)) = length (columns f)"
  by (simp add: mask_rows_def)

lemma clean_window_columns:
  assumes "clean_window start_time end_time sel f = Some df"
  shows "length (columns df) = length sel"
proof -
  from assms obtain w where w: "loc_window start_time end_time sel f = Some w"
    and df: "df = dropna (interpolate w)"
    by (auto simp: clean_window_def)
  from w have "length (columns w) = length sel"
    by (auto simp: loc_window_def select_cols_def split: if_splits)
  then show ?thesis
    unfolding df by (simp add: dropna_def mask_rows_columns interpolate_def)
qed

lemma clean_window_empty_iff:
  assumes "clean_window start_time end_time sel f = Some df" and "2 \<le> length sel"
  shows "frame_empty df \<longleftrightarrow> nrows df = 0"
proof -
  have "length (columns df) = length sel" by (rule clean_window_columns [OF assms(1)])
  with assms(2) have "columns df \<noteq> []" by auto
  then show ?thesis by (simp add: frame_empty_def nrows_def)
qed

lemma generate_fuzzy_rules_report:
  assumes "generate_fuzzy_rules merged selected start_time end_time top_k = Report shown"
  shows "\<exists>df. clean_window start_time end_time selected merged = Some df \<and> \<not> frame_empty df
       \<and> shown = take top_k (sorted_rules (rules_count df selected))"
proof (cases "clean_window start_time end_time selected merged")
  case None
  with assms show ?thesis by (simp add: generate_fuzzy_rules_def split: if_splits)
next
  case (Some df)
  with assms show ?thesis by (auto simp: generate_fuzzy_rules_def split: if_splits)
qed

text \<open>
  C10.  In every rule-mining run that reaches the mining (the cleaned data is not empty),
  the counter of each key equals the number of cleaned rows with that key, so each row
  adds one to exactly one counter, and the support counts of all mined rules sum to the
  number of cleaned rows.  The rules shown are the first \<open>top_k\<close> of the sorted rules;
  their supports sum to the number of rows when no rule is cut off.
\<close>

theorem fuzzy_support_sum:
  assumes "generate_fuzzy_rules merged selected start_time end_time top_k = Report shown"
  shows "\<exists>df. clean_window start_time end_time selected merged = Some df
       \<and> 0 < nrows df
       \<and> (\<forall>key. count_of (rules_count df selected) key
              = length (filter (\<lambda>idx. rule_key_of df selected idx = key) [0..<nrows df]))
       \<and> sum_list (map snd (rules_count df selected)) = nrows df
       \<and> sum_list (map snd (sorted_rules (rules_count df selected))) = nrows df
       \<and> shown = take top_k (sorted_rules (rules_count df selected))
       \<and> (length (rules_count df selected) \<le> top_k \<longrightarrow> sum_list (map snd shown) = nrows df)"
proof -
  from generate_fuzzy_rules_report [OF assms] obtain df where
    cw: "clean_window start_time end_time selected merged = Some df"
    and ne: "\<not> frame_empty df"
    and shown: "shown = take top_k (sorted_rules (rules_count df selected))"
    by blast
  have rows: "0 < nrows df" using ne by (simp add: frame_empty_def nrows_def)
  have all: "sum_list (map snd (sorted_rules (rules_count df selected))) = nrows df"
    by (simp add: sorted_rules_sum rules_count_sum)
  have "sum_list (map snd shown) = nrows df" if "length (rules_count df selected) \<le> top_k"
  proof -
    have "length (sorted_rules (rules_count df selected)) \<le> top_k"
      using that by (simp add: sorted_rules_def)
    then show ?thesis unfolding shown using all by simp
  qed
  with cw rows all shown rules_count_sum [of df selected] rules_count_count [of df selected]
  show ?thesis by blast
qed

text \<open>A dataset of four rows for the example run.\<close>

definition four_rows :: frame where
  "four_rows = \<lparr>index = [0, 1, 2, 3],
     columns = [(''a_in'', [Some 1, Some 2, Some 3, Some 4]),
                (''a_out'', [Some 10, Some 20, Some 30, Some 40])]\<rparr>"

lemma four_rows_fuzzy:
  "generate_fuzzy_rules four_rows [''a_in'', ''a_out''] 0 3 20
   = Report [(([High], High), 2), (([Low], Low), 1), (([Medium], Medium), 1)]"
  by code_simp

lemma four_rows_clean:
  "clean_window 0 3 [''a_in'', ''a_out''] four_rows = Some four_rows"
  by code_simp

theorem fuzzy_support_sum_witness:
  "generate_fuzzy_rules four_rows [''a_in'', ''a_out''] 0 3 20
     = Report [(([High], High), 2), (([Low], Low), 1), (([Medium], Medium), 1)]
   \<and> nrows four_rows = 4
   \<and> sum_list (map snd (rules_count four_rows [''a_in'', ''a_out''])) = 4"
proof -
  have n: "nrows four_rows = 4" by code_simp
  from fuzzy_support_sum [OF four_rows_fuzzy] four_rows_clean
  have "sum_list (map snd (rules_count four_rows [''a_in'', ''a_out''])) = nrows four_rows"
    by auto
  with n four_rows_fuzzy show ?thesis by simp
qed

text \<open>
  C3, as stated, fails.  The miner tests whether the cleaned data is empty, not whether
  it has fewer than two rows: cleaned data of exactly one row is mined and gives one rule
  of support 1.
\<close>

theorem fuzzy_one_row_counterexample:
  "clean_window 0 0 [''a_in'', ''a_out''] one_row = Some one_row
   \<and> nrows one_row = 1
   \<and> generate_fuzzy_rules one_row [''a_in'', ''a_out''] 0 0 20 = Report [(([Low], Low), 1)]"
  by code_simp

text \<open>
  C3, amended.  For every rule-mining invocation on a loaded dataset with at least two
  selected series: when the cleaned data has no row, the miner reports insufficient data
  and returns no rules; when it has at least one row, rules are mined, and a single
  cleaned row gives exactly one rule, of support 1.
\<close>

theorem fuzzy_insufficient_data:
  assumes "\<not> frame_empty merged" and "2 \<le> length selected"
    and "clean_window start_time end_time selected merged = Some df"
  shows "(nrows df = 0 \<longrightarrow>
            generate_fuzzy_rules merged selected start_time end_time top_k
            = Status InsufficientData)
       \<and> (0 < nrows df \<longrightarrow>
            generate_fuzzy_rules merged selected start_time end_time top_k
            = Report (take top_k (sorted_rules (rules_count df selected))))
       \<and> (nrows df = 1 \<and> 0 < top_k \<longrightarrow>
            generate_fuzzy_rules merged selected start_time end_time top_k
            = Report [(rule_key_of df selected 0, 1)])"
proof -
  have e: "frame_empty df \<longleftrightarrow> nrows df = 0"
    by (rule clean_window_empty_iff [OF assms(3) assms(2)])
  have run: "generate_fuzzy_rules merged selected start_time end_time top_k
        = (if nrows df = 0 then Status InsufficientData
           else Report (take top_k (sorted_rules (rules_count df selected))))"
    using assms e by (simp add: generate_fuzzy_rules_def)
  have one: "take top_k (sorted_rules (rules_count df selected)) = [(rule_key_of df selected 0, 1)]"
    if "nrows df = 1" "0 < top_k"
  proof -
    have "rules_count df selected = [(rule_key_of df selected 0, 1)]"
      using that by (simp add: rules_count_def)
    with that show ?thesis
      by (cases top_k) (simp_all add: sorted_rules_def)
  qed
  from run one show ?thesis by auto
qed

text \<open>The empty window of the one-row dataset.\<close>

definition no_row :: frame where
  "no_row = \<lparr>index = [], columns = [(''a_in'', []), (''a_out'', [])]\<rparr>"

theorem fuzzy_insufficient_data_witness:
  "generate_fuzzy_rules one_row [''a_in'', ''a_out''] 5 9 20 = Status InsufficientData
   \<and> generate_fuzzy_rules one_row [''a_in'', ''a_out''] 0 0 20
       = Report [(rule_key_of one_row [''a_in'', ''a_out''] 0, 1)]"
proof -
  have ne: "\<not> frame_empty one_row" by code_simp
  have c0: "clean_window 5 9 [''a_in'', ''a_out''] one_row = Some no_row" by code_simp
  have c1: "clean_window 0 0 [''a_in'', ''a_out''] one_row = Some one_row" by code_simp
  have n0: "nrows no_row = 0" by code_simp
  have n1: "nrows one_row = 1" by code_simp
  from fuzzy_insufficient_data [OF ne _ c0, of 20] n0
  have a: "generate_fuzzy_rules one_row [''a_in'', ''a_out''] 5 9 20 = Status InsufficientData"
    by simp
  have "nrows one_row = 1 \<and> 0 < (20::nat) \<longrightarrow>
          generate_fuzzy_rules one_row [''a_in'', ''a_out''] 0 0 20
          = Report [(rule_key_of one_row [''a_in'', ''a_out''] 0, 1)]"
  proof -
    have "2 \<le> length [''a_in'', ''a_out'']" by simp
    from fuzzy_insufficient_data [OF ne this c1, of 20] show ?thesis by blast
  qed
  with n1 have b: "generate_fuzzy_rules one_row [''a_in'', ''a_out''] 0 0 20
       = Report [(rule_key_of one_row [''a_in'', ''a_out''] 0, 1)]"
    by simp
  from a b show ?thesis by simp
qed

section \<open>Loading a source table (\<open>load_files\<close>, \<open>update_variable_list\<close>)\<close>

definition startswith :: "string \<Rightarrow> string \<Rightarrow> bool" where
  \<comment> \<open>\<open>s.startswith(p)\<close>\<close>
  "startswith p s \<longleftrightarrow> take (length p) s = p"

text \<open>
  A Python string is a sequence of Unicode code points.  A label is held as the UTF-8
  bytes of its string, so a test on whole ASCII prefixes or separators reads the bytes,
  and \<open>str.strip()\<close>, which knows the Unicode white space, reads the decoded code points.
\<close>

definition utf8_len :: "int \<Rightarrow> nat" where
  \<comment> \<open>the number of bytes of the sequence a lead byte starts\<close>
  "utf8_len b =
     (if 0xF0 \<le> b \<and> b < 0xF8 then 4
      else if 0xE0 \<le> b \<and> b < 0xF0 then 3
      else if 0xC0 \<le> b \<and> b < 0xE0 then 2
      else 1)"

fun utf8_code_point :: "int list \<Rightarrow> int" where
  \<comment> \<open>the code point of one byte sequence; \<open>0xFFFD\<close> for bytes that start no sequence\<close>
  "utf8_code_point [a] = (if a < 0x80 then a else 0xFFFD)"
| "utf8_code_point [a, b] = (a - 0xC0) * 64 + (b - 0x80)"
| "utf8_code_point [a, b, c] = (a - 0xE0) * 4096 + (b - 0x80) * 64 + (c - 0x80)"
| "utf8_code_point [a, b, c, d] =
     (a - 0xF0) * 262144 + (b - 0x80) * 4096 + (c - 0x80) * 64 + (d - 0x80)"
| "utf8_code_point bs = 0xFFFD"

function decode_utf8 :: "int list \<Rightarrow> int list" where
  \<comment> \<open>the code points of a byte string\<close>
  "decode_utf8 [] = []"
| "decode_utf8 (b # rest) =
     utf8_code_point (take (utf8_len b) (b # rest))
     # decode_utf8 (drop (utf8_len b) (b # rest))"
  by pat_completeness auto
termination
  by (relation "measure length") (auto simp: utf8_len_def)

declare decode_utf8.simps [simp del]

definition code_points :: "string \<Rightarrow> int list" where
  "code_points s = decode_utf8 (map of_char s)"

definition is_space :: "int \<Rightarrow> bool" where
  \<comment> \<open>the code points \<open>str.isspace()\<close> accepts, which are those \<open>str.strip()\<close> removes\<close>
  "is_space c \<longleftrightarrow>
     c \<in> set [0x09, 0x0A, 0x0B, 0x0C, 0x0D, 0x1C, 0x1D, 0x1E, 0x1F, 0x20, 0x85, 0xA0,
              0x1680, 0x2000, 0x2001, 0x2002, 0x2003, 0x2004, 0x2005, 0x2006, 0x2007,
              0x2008, 0x2009, 0x200A, 0x2028, 0x2029, 0x202F, 0x205F, 0x3000]"

definition strip :: "int list \<Rightarrow> int list" where
  \<comment> \<open>\<open>s.strip()\<close>, on code points\<close>
  "strip s = rev (dropWhile is_space (rev (dropWhile is_space s)))"

fun split_on :: "char \<Rightarrow> string \<Rightarrow> string list" where
  \<comment> \<open>\<open>s.split(sep)\<close> for a one-character separator\<close>
  "split_on sep [] = [[]]"
| "split_on sep (x # xs) =
     (if x = sep then [] # split_on sep xs
      else (case split_on sep xs of
              w # ws \<Rightarrow> (x # w) # ws
            | [] \<Rightarrow> [[x]]))"

definition file_prefix_analysis :: "string \<Rightarrow> string" where
  \<comment> \<open>\<open>file.split('/')[-1].split('.')[0] + "_"\<close>\<close>
  "file_prefix_analysis file = hd (split_on CHR ''.'' (last (split_on CHR ''/'' file))) @ ''_''"

definition file_prefix_large :: "string \<Rightarrow> string" where
  \<comment> \<open>the variant of the large-data viewer, which also splits at backslashes\<close>
  "file_prefix_large file =
     hd (split_on CHR ''.'' (last (split_on (CHR 0x5C) (last (split_on CHR ''/'' file))))) @ ''_''"

definition is_placeholder :: "string \<Rightarrow> bool" where
  \<comment> \<open>\<open>col.startswith('Unnamed:') or col.strip() == ''\<close>\<close>
  "is_placeholder col \<longleftrightarrow> startswith ''Unnamed:'' col \<or> strip (code_points col) = []"

definition new_columns :: "string \<Rightarrow> string \<Rightarrow> frame \<Rightarrow> (string \<times> string) list" where
  \<comment> \<open>the renaming dictionary the loop over \<open>df.columns\<close> builds: a column is skipped when
      it is the time column or a placeholder, and gets the prefix otherwise\<close>
  "new_columns pfx time_col df =
     [(col, pfx @ col). col \<leftarrow> map fst (columns df),
                                 col \<noteq> time_col, \<not> is_placeholder col]"

definition rename_columns :: "(string \<times> string) list \<Rightarrow> frame \<Rightarrow> frame" where
  \<comment> \<open>\<open>df.rename(columns=d)\<close>: a label that is a key of \<open>d\<close> is replaced, any other is kept\<close>
  "rename_columns d df =
     df\<lparr>columns := map (\<lambda>(c, vs). (case map_of d c of Some c' \<Rightarrow> c' | None \<Rightarrow> c, vs))
                         (columns df)\<rparr>"

definition endswith :: "string \<Rightarrow> string \<Rightarrow> bool" where
  "endswith p s \<longleftrightarrow> length p \<le> length s \<and> drop (length s - length p) s = p"

definition drop_column :: "string \<Rightarrow> frame \<Rightarrow> frame" where
  \<comment> \<open>\<open>df.drop(columns=[col])\<close>\<close>
  "drop_column col df = df\<lparr>columns := filter (\<lambda>(c, vs). c \<noteq> col) (columns df)\<rparr>"

definition drop_dup_columns :: "frame \<Rightarrow> frame" where
  \<comment> \<open>the loop after the merge: a column \<open>x_dup\<close> is dropped when \<open>x\<close> is a column\<close>
  "drop_dup_columns m =
     fold (\<lambda>col acc.
             if endswith ''_dup'' col
                \<and> take (length col - 4) col \<in> set (map fst (columns acc))
             then drop_column col acc else acc)
          (map fst (columns m)) m"

type_synonym merge_fn = "frame \<Rightarrow> frame \<Rightarrow> string + frame"
  \<comment> \<open>\<open>pd.merge(left, right, left_index=True, right_index=True, how='outer',
      suffixes=('', '_dup'))\<close>: the joined frame, or the exception raised; the join is a
      parameter of the model\<close>

definition load_table ::
  "merge_fn \<Rightarrow> (string \<Rightarrow> string) \<Rightarrow> frame \<Rightarrow> string \<Rightarrow> string \<Rightarrow> frame \<Rightarrow> frame" where
  \<comment> \<open>one round of the loop of \<open>load_files\<close>, from the table as it is after reading,
      parsing of the time column and \<open>set_index\<close>; the result is the new \<open>merged_data\<close>\<close>
  "load_table pd_merge prefix_of merged_data file time_col df =
     (if index df = [] then merged_data
      else let df = rename_columns (new_columns (prefix_of file) time_col df) df
           in if frame_empty merged_data then df
              else case pd_merge merged_data df of
                     Inl err \<Rightarrow> merged_data
                   | Inr m \<Rightarrow> drop_dup_columns m)"

definition lower :: "string \<Rightarrow> string" where
  \<comment> \<open>\<open>str.lower()\<close> on the ASCII letters; the bytes of other code points are left as
      they are, which does not change whether the result starts with one of the prefixes
      below: no other code point lowers to one of their letters followed by the next\<close>
  "lower s = map (\<lambda>c. if 65 \<le> (of_char c :: nat) \<and> (of_char c :: nat) \<le> 90
                          then char_of (of_char c + (32 :: nat)) else c) s"

definition time_like :: "string \<Rightarrow> bool" where
  \<comment> \<open>\<open>col.lower().startswith(('time', 'date', <the two-character word for time>))\<close>; the
      last prefix is given by its UTF-8 bytes\<close>
  "time_like col \<longleftrightarrow>
     startswith ''time'' (lower col) \<or> startswith ''date'' (lower col)
     \<or> startswith [CHR 0xE6, CHR 0x97, CHR 0xB6, CHR 0xE9, CHR 0x97, CHR 0xB4] (lower col)"

definition variable_list :: "frame \<Rightarrow> string list" where
  \<comment> \<open>the columns \<open>update_variable_list\<close> offers for selection\<close>
  "variable_list merged_data =
     (if frame_empty merged_data then []
      else filter (\<lambda>col. \<not> time_like col \<and> \<not> is_placeholder col)
                  (map fst (columns merged_data)))"

text \<open>An example: a file whose header has an unlabelled column and a blank one.\<close>

definition empty_frame :: frame where
  \<comment> \<open>\<open>pd.DataFrame()\<close>\<close>
  "empty_frame = \<lparr>index = [], columns = []\<rparr>"

definition no_merge :: merge_fn where
  "no_merge left right = Inl ''merge failed''"

definition csv_table :: frame where
  "csv_table = \<lparr>index = [0, 1],
     columns = [(''temp'', [Some 20, Some 21]), (''Unnamed: 2'', [None, None]),
                (''  '', [Some 1, None])]\<rparr>"


lemma new_columns_placeholder:
  "is_placeholder c \<Longrightarrow> map_of (new_columns pfx time_col df) c = None"
proof -
  assume "is_placeholder c"
  then have "c \<notin> fst ` set (new_columns pfx time_col df)"
    by (auto simp: new_columns_def)
  then show ?thesis by (simp add: map_of_eq_None_iff)
qed

lemma new_columns_prefixed:
  assumes "(c, vs) \<in> set (columns df)" "\<not> is_placeholder c" "c \<noteq> time_col"
  shows "map_of (new_columns pfx time_col df) c = Some (pfx @ c)"
proof -
  have "c \<in> fst ` set (new_columns pfx time_col df)"
    using assms by (force simp: new_columns_def)
  then obtain v where v: "map_of (new_columns pfx time_col df) c = Some v"
    by (metis map_of_eq_None_iff not_Some_eq)
  then have "(c, v) \<in> set (new_columns pfx time_col df)" by (rule map_of_SomeD)
  then have "v = pfx @ c" by (auto simp: new_columns_def)
  with v show ?thesis by simp
qed

lemma variable_list_no_placeholder: "c \<in> set (variable_list m) \<Longrightarrow> \<not> is_placeholder c"
  by (auto simp: variable_list_def split: if_splits)

text \<open>
  A second file, whose blank headers are a no-break space (U+00A0) and an ideographic
  space (U+3000) followed by a space.
\<close>

definition spaces_table :: frame where
  "spaces_table = \<lparr>index = [0, 1],
     columns = [(''temp'', [Some 20, Some 21]),
                ([CHR 0xC2, CHR 0xA0], [None, Some 2]),
                ([CHR 0xE3, CHR 0x80, CHR 0x80, CHR 0x20], [Some 3, None])]\<rparr>"

text \<open>
  C2, as stated, fails.  The loop that skips the placeholder columns builds the renaming
  dictionary; skipping a column leaves it without the prefix, it does not drop it.
  Loading the example file into an empty dataset gives a merged dataset that has the
  columns \<open>Unnamed: 2\<close> and the blank one, in both variants of \<open>load_files\<close>.
\<close>

theorem placeholder_columns_kept_counterexample:
  "load_table no_merge file_prefix_analysis empty_frame ''/data/run1.csv'' ''time'' csv_table
     = \<lparr>index = [0, 1],
        columns = [(''run1_temp'', [Some 20, Some 21]), (''Unnamed: 2'', [None, None]),
                   (''  '', [Some 1, None])]\<rparr>
   \<and> load_table no_merge file_prefix_large empty_frame ''/data/run1.csv'' ''time'' csv_table
     = \<lparr>index = [0, 1],
        columns = [(''run1_temp'', [Some 20, Some 21]), (''Unnamed: 2'', [None, None]),
                   (''  '', [Some 1, None])]\<rparr>
   \<and> is_placeholder ''Unnamed: 2'' \<and> is_placeholder ''  ''"
  by code_simp

text \<open>
  C2, amended.  For every loaded source table with at least one row, every column whose
  name is blank, whitespace-only or starts with \<open>Unnamed:\<close> is kept under its unchanged
  name (it does not get the source prefix) in the table that is merged, while every other
  data column is renamed to prefix plus name; when the dataset is empty the merged
  dataset is that table, so such a column appears in it.  The variable list built from
  the merged dataset never offers such a column.
\<close>

theorem placeholder_columns_not_renamed:
  assumes "index df \<noteq> []"
  shows "(\<forall>c vs. (c, vs) \<in> set (columns df) \<and> is_placeholder c \<longrightarrow>
            (c, vs) \<in> set (columns (rename_columns (new_columns (prefix_of file) time_col df) df)))
       \<and> (\<forall>c vs. (c, vs) \<in> set (columns df) \<and> \<not> is_placeholder c \<and> c \<noteq> time_col \<longrightarrow>
            (prefix_of file @ c, vs)
            \<in> set (columns (rename_columns (new_columns (prefix_of file) time_col df) df)))
       \<and> (frame_empty merged \<longrightarrow>
            load_table pd_merge prefix_of merged file time_col df
            = rename_columns (new_columns (prefix_of file) time_col df) df)
       \<and> (\<forall>c \<in> set (variable_list (load_table pd_merge prefix_of merged file time_col df)).
            \<not> is_placeholder c)"
proof -
  let ?d = "new_columns (prefix_of file) time_col df"
  have kept: "(c, vs) \<in> set (columns (rename_columns ?d df))"
    if "(c, vs) \<in> set (columns df)" "is_placeholder c" for c vs
  proof -
    have "(\<lambda>(c, vs). (case map_of ?d c of Some c' \<Rightarrow> c' | None \<Rightarrow> c, vs)) (c, vs) = (c, vs)"
      using new_columns_placeholder [OF that(2)] by simp
    with that(1) show ?thesis
      unfolding rename_columns_def by (force simp: image_iff)
  qed
  have pre: "(prefix_of file @ c, vs) \<in> set (columns (rename_columns ?d df))"
    if "(c, vs) \<in> set (columns df)" "\<not> is_placeholder c" "c \<noteq> time_col" for c vs
  proof -
    have "(\<lambda>(c, vs). (case map_of ?d c of Some c' \<Rightarrow> c' | None \<Rightarrow> c, vs)) (c, vs)
          = (prefix_of file @ c, vs)"
      using new_columns_prefixed [OF that] by simp
    with that(1) show ?thesis
      unfolding rename_columns_def by (force simp: image_iff)
  qed
  have first: "load_table pd_merge prefix_of merged file time_col df = rename_columns ?d df"
    if "frame_empty merged"
    using that assms by (simp add: load_table_def Let_def)
  from kept pre first variable_list_no_placeholder show ?thesis by blast
qed

theorem placeholder_columns_not_renamed_witness:
  "(''Unnamed: 2'', [None, None])
     \<in> set (columns (load_table no_merge file_prefix_analysis empty_frame ''/data/run1.csv''
                        ''time'' csv_table))
   \<and> (''run1_temp'', [Some 20, Some 21])
     \<in> set (columns (load_table no_merge file_prefix_analysis empty_frame ''/data/run1.csv''
                        ''time'' csv_table))
   \<and> variable_list (load_table no_merge file_prefix_analysis empty_frame ''/data/run1.csv''
                       ''time'' csv_table) = [''run1_temp'']
   \<and> ([CHR 0xC2, CHR 0xA0], [None, Some 2])
     \<in> set (columns (load_table no_merge file_prefix_large empty_frame ''/data/run2.csv''
                        ''time'' spaces_table))
   \<and> ([CHR 0xE3, CHR 0x80, CHR 0x80, CHR 0x20], [Some 3, None])
     \<in> set (columns (load_table no_merge file_prefix_large empty_frame ''/data/run2.csv''
                        ''time'' spaces_table))
   \<and> variable_list (load_table no_merge file_prefix_large empty_frame ''/data/run2.csv''
                       ''time'' spaces_table) = [''run2_temp'']"
proof -
  have i: "index csv_table \<noteq> []" by code_simp
  have e: "frame_empty empty_frame" by code_simp
  have c1: "(''Unnamed: 2'', [None, None]) \<in> set (columns csv_table)" by code_simp
  have c2: "(''temp'', [Some 20, Some 21]) \<in> set (columns csv_table)" by code_simp
  have p1: "is_placeholder ''Unnamed: 2''" by code_simp
  have p2: "\<not> is_placeholder ''temp''" by code_simp
  have pf: "file_prefix_analysis ''/data/run1.csv'' = ''run1_''" by code_simp
  have vl: "variable_list (load_table no_merge file_prefix_analysis empty_frame ''/data/run1.csv''
                       ''time'' csv_table) = [''run1_temp'']" by code_simp
  from placeholder_columns_not_renamed [OF i, of file_prefix_analysis "''/data/run1.csv''"
      "''time''" empty_frame no_merge] e c1 c2 p1 p2 pf
  have a: "(''Unnamed: 2'', [None, None])
     \<in> set (columns (load_table no_merge file_prefix_analysis empty_frame ''/data/run1.csv''
                        ''time'' csv_table))"
    and b: "(''run1_temp'', [Some 20, Some 21])
     \<in> set (columns (load_table no_merge file_prefix_analysis empty_frame ''/data/run1.csv''
                        ''time'' csv_table))"
    by force+
  have i2: "index spaces_table \<noteq> []" by code_simp
  have d1: "([CHR 0xC2, CHR 0xA0], [None, Some 2]) \<in> set (columns spaces_table)" by code_simp
  have d2: "([CHR 0xE3, CHR 0x80, CHR 0x80, CHR 0x20], [Some 3, None])
              \<in> set (columns spaces_table)" by code_simp
  have q1: "is_placeholder [CHR 0xC2, CHR 0xA0]" by code_simp
  have q2: "is_placeholder [CHR 0xE3, CHR 0x80, CHR 0x80, CHR 0x20]" by code_simp
  have vl2: "variable_list (load_table no_merge file_prefix_large empty_frame ''/data/run2.csv''
                       ''time'' spaces_table) = [''run2_temp'']" by code_simp
  from placeholder_columns_not_renamed [OF i2, of file_prefix_large "''/data/run2.csv''"
      "''time''" empty_frame no_merge] e d1 d2 q1 q2
  have c: "([CHR 0xC2, CHR 0xA0], [None, Some 2])
     \<in> set (columns (load_table no_merge file_prefix_large empty_frame ''/data/run2.csv''
                        ''time'' spaces_table))"
    and d: "([CHR 0xE3, CHR 0x80, CHR 0x80, CHR 0x20], [Some 3, None])
     \<in> set (columns (load_table no_merge file_prefix_large empty_frame ''/data/run2.csv''
                        ''time'' spaces_table))"
    by force+
  from a b c d vl vl2 show ?thesis by simp
qed

section \<open>Time filter and resampling (\<open>_apply_time_filter_and_sampling\<close>)\<close>

text \<open>
  The viewer offers the raw data or one of nine fixed periods (\<open>1S\<close> to \<open>1H\<close>), and five
  aggregators.  Timestamps are nanoseconds since the epoch.  The pandas resampling is
  written out for these periods: each timestamp belongs to the bucket that starts at the
  multiple of the period at or before it, and a bucket is labelled by its start.
\<close>

datatype freq = RawData | S1 | S5 | S10 | S30 | T1 | T5 | T15 | T30 | H1

fun period_ns :: "freq \<Rightarrow> int" where
  \<comment> \<open>the width of a bucket in nanoseconds; the raw-data entry has none\<close>
  "period_ns RawData = 0"
| "period_ns S1 = 10 ^ 9"
| "period_ns S5 = 5 * 10 ^ 9"
| "period_ns S10 = 10 * 10 ^ 9"
| "period_ns S30 = 30 * 10 ^ 9"
| "period_ns T1 = 60 * 10 ^ 9"
| "period_ns T5 = 300 * 10 ^ 9"
| "period_ns T15 = 900 * 10 ^ 9"
| "period_ns T30 = 1800 * 10 ^ 9"
| "period_ns H1 = 3600 * 10 ^ 9"

datatype agg = AggMean | AggFirst | AggMax | AggMin | AggMedian

definition valid_values :: "cell list \<Rightarrow> real list" where
  "valid_values cs = map the (filter (\<lambda>c. c \<noteq> None) cs)"

definition aggregate :: "agg \<Rightarrow> cell list \<Rightarrow> cell" where
  \<comment> \<open>the aggregators skip missing cells; a bucket without a value aggregates to missing\<close>
  "aggregate a cs =
     (let vs = valid_values cs
      in if vs = [] then None
         else Some (case a of
                      AggMean \<Rightarrow> np_mean vs
                    | AggFirst \<Rightarrow> hd vs
                    | AggMax \<Rightarrow> Max (set vs)
                    | AggMin \<Rightarrow> Min (set vs)
                    | AggMedian \<Rightarrow> np_median vs))"

definition day_ns :: int where
  "day_ns = 86400 * 10 ^ 9"

definition bucket_label :: "int \<Rightarrow> int \<Rightarrow> int \<Rightarrow> int" where
  \<comment> \<open>the left edge of the bucket of \<open>t\<close> on the grid of the period anchored at the origin\<close>
  "bucket_label origin p t = origin + ((t - origin) div p) * p"

definition start_day :: "frame \<Rightarrow> int" where
  \<comment> \<open>the default origin of the buckets: midnight of the day of the first timestamp\<close>
  "start_day df = (Min (set (index df)) div day_ns) * day_ns"

definition bucket_labels :: "freq \<Rightarrow> frame \<Rightarrow> int list" where
  \<comment> \<open>one label per bucket, from the bucket of the first timestamp to that of the last\<close>
  "bucket_labels f df =
     (let p = period_ns f;
          first = bucket_label (start_day df) p (Min (set (index df)));
          last = bucket_label (start_day df) p (Max (set (index df)))
      in map (\<lambda>k. first + int k * p) [0..<nat ((last - first) div p) + 1])"

definition bucket_cells :: "freq \<Rightarrow> frame \<Rightarrow> cell list \<Rightarrow> int \<Rightarrow> cell list" where
  \<comment> \<open>the cells of a column whose timestamps fall into the bucket labelled \<open>b\<close>, in the
      order of their timestamps: pandas sorts the rows by time, stably, before it groups\<close>
  "bucket_cells f df vs b =
     [v. (t, v) \<leftarrow> sort_key fst (zip (index df) vs),
         bucket_label (start_day df) (period_ns f) t = b]"

definition resample :: "freq \<Rightarrow> agg \<Rightarrow> frame \<Rightarrow> frame" where
  \<comment> \<open>\<open>df.resample(freq).agg(agg, numeric_only=True)\<close> with the defaults of a fixed
      period: buckets closed and labelled on the left, anchored at midnight of the first
      day, one output row per bucket\<close>
  "resample f a df =
     \<lparr>index = bucket_labels f df,
      columns = map (\<lambda>(c, vs). (c, map (\<lambda>b. aggregate a (bucket_cells f df vs b))
                                        (bucket_labels f df)))
                    (columns df)\<rparr>"

definition dropna_all :: "frame \<Rightarrow> frame" where
  \<comment> \<open>\<open>dropna(how='all')\<close>: a row is kept when some cell of it is not missing\<close>
  "dropna_all f =
     mask_rows (map (\<lambda>k. list_ex (\<lambda>(c, vs). vs ! k \<noteq> None) (columns f)) [0..<nrows f]) f"

definition time_filter :: "int \<Rightarrow> int \<Rightarrow> frame \<Rightarrow> frame" where
  \<comment> \<open>\<open>df.loc[(df.index >= start_time) & (df.index <= end_time)]\<close>\<close>
  "time_filter start_time end_time df =
     mask_rows (map (\<lambda>t. start_time \<le> t \<and> t \<le> end_time) (index df)) df"

definition apply_time_filter_and_sampling ::
  "(freq \<Rightarrow> agg \<Rightarrow> bool) \<Rightarrow> frame \<Rightarrow> int \<Rightarrow> int \<Rightarrow> freq \<Rightarrow> agg \<Rightarrow> frame" where
  \<comment> \<open>\<open>accepted\<close> says whether pandas runs the resampling for this period and aggregator;
      when it raises, the filtered data is returned without sampling\<close>
  "apply_time_filter_and_sampling accepted df start_time end_time f a =
     (if frame_empty df then df
      else let df = time_filter start_time end_time df
           in if frame_empty df then df
              else if f \<noteq> RawData
                   then (if accepted f a then dropna_all (resample f a df) else df)
                   else df)"

text \<open>An example: three rows at 0:01:30, 0:02:30 and 0:05:30, the last without values.\<close>

definition always_accepted :: "freq \<Rightarrow> agg \<Rightarrow> bool" where
  "always_accepted f a = True"

definition half_minutes :: frame where
  "half_minutes = \<lparr>index = [90 * 10 ^ 9, 150 * 10 ^ 9, 330 * 10 ^ 9],
                   columns = [(''a_x'', [Some 1, Some 3, None]), (''a_y'', [Some 2, None, None])]\<rparr>"



lemma mask_select_map_filter: "mask_select xs (map P xs) = filter P xs"
  by (induction xs) (auto simp: mask_select_def)

lemma mask_select_Cons:
  "mask_select (x # xs) (b # m) = (if b then x # mask_select xs m else mask_select xs m)"
  by (simp add: mask_select_def)

lemma mask_select_nth_conv:
  "length xs = length m \<Longrightarrow>
   mask_select xs m = map ((!) xs) (filter ((!) m) [0..<length m])"
proof (induction xs m rule: list_induct2)
  case Nil
  show ?case by (simp add: mask_select_def)
next
  case (Cons x xs b m)
  have upt: "[0..<Suc (length m)] = 0 # map Suc [0..<length m]"
    by (simp add: upt_conv_Cons map_Suc_upt del: upt_Suc)
  have "filter ((!) (b' # m)) (map Suc [0..<length m]) = map Suc (filter ((!) m) [0..<length m])"
    for b' by (simp add: filter_map comp_def)
  then have "map ((!) (x # xs)) (filter ((!) (b # m)) [0..<length (b # m)])
        = (if b then [x] else []) @ map ((!) xs) (filter ((!) m) [0..<length m])"
    by (simp add: upt comp_def del: upt_Suc)
  with Cons.IH show ?case by (simp add: mask_select_Cons)
qed

lemma bucket_label_bounds:
  assumes "0 < p"
  shows "bucket_label origin p t \<le> t \<and> t < bucket_label origin p t + p"
proof -
  have "(t - origin) div p * p \<le> t - origin"
    using assms by (simp add: div_mult_self3 minus_mod_eq_div_mult [symmetric])
  moreover have "t - origin < (t - origin) div p * p + p"
    using assms pos_mod_bound [of p "t - origin"]
    by (simp add: minus_mod_eq_div_mult [symmetric])
  ultimately show ?thesis by (simp add: bucket_label_def)
qed

lemma period_ns_pos: "f \<noteq> RawData \<Longrightarrow> 0 < period_ns f"
  by (cases f) simp_all

lemma aggregate_Some_nonempty: "aggregate a cs \<noteq> None \<Longrightarrow> cs \<noteq> []"
  by (auto simp: aggregate_def valid_values_def Let_def)

lemma time_filter_index:
  "index (time_filter start_time end_time df)
   = filter (\<lambda>t. start_time \<le> t \<and> t \<le> end_time) (index df)"
  by (simp add: time_filter_def mask_rows_def mask_select_map_filter)

lemma dropna_all_kept:
  assumes len: "\<forall>(c, vs) \<in> set (columns g). length vs = nrows g"
    and k: "k < nrows (dropna_all g)"
  shows "\<exists>j < nrows g. index (dropna_all g) ! k = index g ! j
           \<and> list_ex (\<lambda>(c, vs). vs ! j \<noteq> None) (columns g)
           \<and> (\<forall>(c, vs) \<in> set (columns g).
                 (c, mask_select vs (map (\<lambda>k. list_ex (\<lambda>(c, vs). vs ! k \<noteq> None) (columns g))
                                         [0..<nrows g]))
                 \<in> set (columns (dropna_all g))
                 \<and> mask_select vs (map (\<lambda>k. list_ex (\<lambda>(c, vs). vs ! k \<noteq> None) (columns g))
                                      [0..<nrows g]) ! k = vs ! j)"
proof -
  let ?P = "\<lambda>k. list_ex (\<lambda>(c, vs). vs ! k \<noteq> None) (columns g)"
  let ?m = "map ?P [0..<nrows g]"
  let ?ps = "filter ((!) ?m) [0..<length ?m]"
  have lm: "length ?m = nrows g" by simp
  have idx: "index (dropna_all g) = map ((!) (index g)) ?ps"
    unfolding dropna_all_def mask_rows_def
    by (simp add: mask_select_nth_conv nrows_def)
  then have k': "k < length ?ps" using k by (simp add: nrows_def)
  let ?j = "?ps ! k"
  have "?j \<in> set ?ps" using k' by (rule nth_mem)
  then have j: "?j < nrows g" and mj: "?m ! ?j" by auto
  then have pj: "?P ?j" by simp
  have ik: "index (dropna_all g) ! k = index g ! ?j"
    unfolding idx using k' by simp
  have cols: "(c, mask_select vs ?m) \<in> set (columns (dropna_all g))
              \<and> mask_select vs ?m ! k = vs ! ?j"
    if "(c, vs) \<in> set (columns g)" for c vs
  proof -
    have "length vs = length ?m" using len that by auto
    then have "mask_select vs ?m = map ((!) vs) ?ps" by (rule mask_select_nth_conv)
    then have "mask_select vs ?m ! k = vs ! ?j" using k' by simp
    moreover have "(c, mask_select vs ?m) \<in> set (columns (dropna_all g))"
      unfolding dropna_all_def mask_rows_def using that by (force simp: image_iff)
    ultimately show ?thesis by simp
  qed
  from j ik pj cols show ?thesis by blast
qed

lemma resample_wf: "\<forall>(c, vs) \<in> set (columns (resample f a df)). length vs = nrows (resample f a df)"
  by (auto simp: resample_def nrows_def)

lemma resample_cell:
  assumes "(c, vs') \<in> set (columns (resample f a df))" and "j < nrows (resample f a df)"
  shows "\<exists>vs. (c, vs) \<in> set (columns df)
           \<and> vs' ! j = aggregate a (bucket_cells f df vs (index (resample f a df) ! j))"
  using assms by (auto simp: resample_def nrows_def)

lemma bucket_cells_nonempty:
  assumes "bucket_cells f df vs b \<noteq> []"
  shows "\<exists>t \<in> set (index df). bucket_label (start_day df) (period_ns f) t = b"
proof -
  from assms obtain v where "v \<in> set (bucket_cells f df vs b)"
    by (cases "bucket_cells f df vs b") auto
  then obtain t where "(t, v) \<in> set (zip (index df) vs)"
    and "bucket_label (start_day df) (period_ns f) t = b"
    by (auto simp: bucket_cells_def split: if_splits)
  then show ?thesis by (auto dest: set_zip_leftD)
qed

lemma resample_kept_timestamp:
  assumes p: "0 < period_ns f"
    and k: "k < nrows (dropna_all (resample f a df))"
  shows "\<exists>t \<in> set (index df). index (dropna_all (resample f a df)) ! k \<le> t
           \<and> t < index (dropna_all (resample f a df)) ! k + period_ns f"
proof -
  let ?g = "resample f a df"
  from dropna_all_kept [OF resample_wf k] obtain j where
    j: "j < nrows ?g" and ik: "index (dropna_all ?g) ! k = index ?g ! j"
    and ex: "list_ex (\<lambda>(c, vs). vs ! j \<noteq> None) (columns ?g)"
    by blast
  from ex obtain c vs' where cv: "(c, vs') \<in> set (columns ?g)" and some: "vs' ! j \<noteq> None"
    by (auto simp: list_ex_iff)
  from resample_cell [OF cv j] obtain vs where
    "vs' ! j = aggregate a (bucket_cells f df vs (index ?g ! j))" by blast
  with some have "aggregate a (bucket_cells f df vs (index ?g ! j)) \<noteq> None" by simp
  then have "bucket_cells f df vs (index ?g ! j) \<noteq> []" by (rule aggregate_Some_nonempty)
  from bucket_cells_nonempty [OF this] obtain t where
    t: "t \<in> set (index df)" and b: "bucket_label (start_day df) (period_ns f) t = index ?g ! j"
    by blast
  from bucket_label_bounds [OF p, of "start_day df" t] b ik t show ?thesis by auto
qed

lemma dropna_all_rows:
  assumes len: "\<forall>(c, vs) \<in> set (columns g). length vs = nrows g"
    and k: "k < nrows (dropna_all g)"
  shows "list_ex (\<lambda>(c, vs). vs ! k \<noteq> None) (columns (dropna_all g))"
proof -
  from dropna_all_kept [OF len k] obtain j where
    ex: "list_ex (\<lambda>(c, vs). vs ! j \<noteq> None) (columns g)"
    and cols: "\<forall>(c, vs) \<in> set (columns g).
                 (c, mask_select vs (map (\<lambda>k. list_ex (\<lambda>(c, vs). vs ! k \<noteq> None) (columns g))
                                         [0..<nrows g]))
                 \<in> set (columns (dropna_all g))
                 \<and> mask_select vs (map (\<lambda>k. list_ex (\<lambda>(c, vs). vs ! k \<noteq> None) (columns g))
                                      [0..<nrows g]) ! k = vs ! j"
    by blast
  from ex obtain c vs where cv: "(c, vs) \<in> set (columns g)" and some: "vs ! j \<noteq> None"
    by (auto simp: list_ex_iff)
  with cols show ?thesis by (force simp: list_ex_iff)
qed

text \<open>
  C1, as stated, fails.  Resampling the example to one minute gives rows labelled 0:01:00
  and 0:02:00; the first label lies before the first input timestamp 0:01:30.  (The
  all-missing rows, those of the empty buckets and of the bucket of 0:05:30, are dropped.)
\<close>

theorem resample_outside_span_counterexample:
  "apply_time_filter_and_sampling always_accepted half_minutes 0 (400 * 10 ^ 9) T1 AggMean
     = \<lparr>index = [60 * 10 ^ 9, 120 * 10 ^ 9],
        columns = [(''a_x'', [Some 1, Some 3]), (''a_y'', [Some 2, None])]\<rparr>
   \<and> index (time_filter 0 (400 * 10 ^ 9) half_minutes) = [90 * 10 ^ 9, 150 * 10 ^ 9, 330 * 10 ^ 9]
   \<and> Min (set (index (time_filter 0 (400 * 10 ^ 9) half_minutes))) = 90 * 10 ^ 9
   \<and> (60 * 10 ^ 9 :: int) < 90 * 10 ^ 9"
  by code_simp

text \<open>
  C1, amended.  When the time-filtered input is resampled with period \<open>p\<close>, each output
  timestamp \<open>t'\<close> is the start of a bucket that holds an input timestamp \<open>t\<close>, that is
  \<open>t' \<le> t < t' + p\<close>; hence \<open>min - p < t' \<le> max\<close> for the minimum and maximum input
  timestamps, and every output row has a cell that is not missing (rows entirely missing
  after aggregation are dropped).  When the raw data is chosen, the resampling is
  refused or the window is empty, the output is the time-filtered input itself, whose
  timestamps lie in the chosen window.
\<close>

theorem resample_timestamps:
  "(\<not> frame_empty df \<and> \<not> frame_empty (time_filter start_time end_time df)
      \<and> f \<noteq> RawData \<and> accepted f a \<longrightarrow>
      apply_time_filter_and_sampling accepted df start_time end_time f a
        = dropna_all (resample f a (time_filter start_time end_time df))
      \<and> (\<forall>t' \<in> set (index (apply_time_filter_and_sampling accepted df start_time end_time f a)).
            (\<exists>t \<in> set (index (time_filter start_time end_time df)).
               t' \<le> t \<and> t < t' + period_ns f)
            \<and> Min (set (index (time_filter start_time end_time df))) - period_ns f < t'
            \<and> t' \<le> Max (set (index (time_filter start_time end_time df))))
      \<and> (\<forall>k < nrows (apply_time_filter_and_sampling accepted df start_time end_time f a).
            list_ex (\<lambda>(c, vs). vs ! k \<noteq> None)
              (columns (apply_time_filter_and_sampling accepted df start_time end_time f a))))
   \<and> (\<not> frame_empty df
      \<and> (frame_empty (time_filter start_time end_time df) \<or> f = RawData \<or> \<not> accepted f a) \<longrightarrow>
      apply_time_filter_and_sampling accepted df start_time end_time f a
        = time_filter start_time end_time df)
   \<and> (frame_empty df \<longrightarrow>
      apply_time_filter_and_sampling accepted df start_time end_time f a = df)
   \<and> (\<forall>t \<in> set (index (time_filter start_time end_time df)).
        t \<in> set (index df) \<and> start_time \<le> t \<and> t \<le> end_time)"
proof -
  let ?w = "time_filter start_time end_time df"
  let ?out = "apply_time_filter_and_sampling accepted df start_time end_time f a"
  have sampled: "?out = dropna_all (resample f a ?w)
      \<and> (\<forall>t' \<in> set (index ?out).
            (\<exists>t \<in> set (index ?w). t' \<le> t \<and> t < t' + period_ns f)
            \<and> Min (set (index ?w)) - period_ns f < t'
            \<and> t' \<le> Max (set (index ?w)))
      \<and> (\<forall>k < nrows ?out. list_ex (\<lambda>(c, vs). vs ! k \<noteq> None) (columns ?out))"
    if ne: "\<not> frame_empty df" "\<not> frame_empty ?w" and f: "f \<noteq> RawData" and acc: "accepted f a"
  proof -
    have out: "?out = dropna_all (resample f a ?w)"
      using ne f acc by (simp add: apply_time_filter_and_sampling_def Let_def)
    have p: "0 < period_ns f" by (rule period_ns_pos [OF f])
    have ts: "(\<exists>t \<in> set (index ?w). t' \<le> t \<and> t < t' + period_ns f)
            \<and> Min (set (index ?w)) - period_ns f < t'
            \<and> t' \<le> Max (set (index ?w))"
      if "t' \<in> set (index ?out)" for t'
    proof -
      from that obtain k where k: "k < nrows (dropna_all (resample f a ?w))"
        and tk: "index (dropna_all (resample f a ?w)) ! k = t'"
        unfolding out nrows_def by (auto simp: in_set_conv_nth)
      from resample_kept_timestamp [OF p k] tk obtain t where
        t: "t \<in> set (index ?w)" and le: "t' \<le> t" and lt: "t < t' + period_ns f"
        by auto
      have mn: "Min (set (index ?w)) \<le> t" using t by simp
      have mx: "t \<le> Max (set (index ?w))" using t by simp
      have ex: "\<exists>t \<in> set (index ?w). t' \<le> t \<and> t < t' + period_ns f"
        using t le lt by blast
      have lo: "Min (set (index ?w)) - period_ns f < t'" using mn lt by linarith
      have hi: "t' \<le> Max (set (index ?w))" using mx le by linarith
      from ex lo hi show ?thesis by simp
    qed
    have rows: "list_ex (\<lambda>(c, vs). vs ! k \<noteq> None) (columns ?out)" if "k < nrows ?out" for k
      using dropna_all_rows [OF resample_wf, of k f a ?w] that unfolding out by simp
    from out ts rows show ?thesis by blast
  qed
  have plain: "?out = ?w"
    if "\<not> frame_empty df" "frame_empty ?w \<or> f = RawData \<or> \<not> accepted f a"
    using that by (auto simp: apply_time_filter_and_sampling_def Let_def)
  have empty: "?out = df" if "frame_empty df"
    using that by (simp add: apply_time_filter_and_sampling_def)
  have win: "\<forall>t \<in> set (index ?w). t \<in> set (index df) \<and> start_time \<le> t \<and> t \<le> end_time"
    by (simp add: time_filter_index)
  from sampled plain empty win show ?thesis by blast
qed

theorem resample_timestamps_witness:
  "apply_time_filter_and_sampling always_accepted half_minutes 0 (400 * 10 ^ 9) T1 AggMean
     = dropna_all (resample T1 AggMean (time_filter 0 (400 * 10 ^ 9) half_minutes))
   \<and> index (apply_time_filter_and_sampling always_accepted half_minutes 0 (400 * 10 ^ 9) T1 AggMean)
     = [60 * 10 ^ 9, 120 * 10 ^ 9]
   \<and> Min (set (index (time_filter 0 (400 * 10 ^ 9) half_minutes))) - period_ns T1 < 60 * 10 ^ 9
   \<and> 120 * 10 ^ 9 \<le> Max (set (index (time_filter 0 (400 * 10 ^ 9) half_minutes)))
   \<and> apply_time_filter_and_sampling always_accepted half_minutes 0 (400 * 10 ^ 9) RawData AggMean
     = time_filter 0 (400 * 10 ^ 9) half_minutes
   \<and> apply_time_filter_and_sampling always_accepted empty_frame 0 (400 * 10 ^ 9) T1 AggMean
     = empty_frame"
proof -
  have ne: "\<not> frame_empty half_minutes" by code_simp
  have em: "frame_empty empty_frame" by code_simp
  note thm3 = resample_timestamps [of empty_frame 0 "400 * 10 ^ 9" T1 always_accepted AggMean]
  have nw: "\<not> frame_empty (time_filter 0 (400 * 10 ^ 9) half_minutes)" by code_simp
  have acc: "always_accepted T1 AggMean" by (simp add: always_accepted_def)
  have idx: "index (apply_time_filter_and_sampling always_accepted half_minutes 0 (400 * 10 ^ 9)
               T1 AggMean) = [60 * 10 ^ 9, 120 * 10 ^ 9]" by code_simp
  have f: "T1 \<noteq> RawData" by simp
  note thm1 = resample_timestamps [of half_minutes 0 "400 * 10 ^ 9" T1 always_accepted AggMean]
  note thm2 = resample_timestamps [of half_minutes 0 "400 * 10 ^ 9" RawData always_accepted AggMean]
  from thm1 ne nw acc f
  have a: "apply_time_filter_and_sampling always_accepted half_minutes 0 (400 * 10 ^ 9) T1 AggMean
     = dropna_all (resample T1 AggMean (time_filter 0 (400 * 10 ^ 9) half_minutes))"
    and b: "\<forall>t' \<in> set (index (apply_time_filter_and_sampling always_accepted half_minutes 0
                (400 * 10 ^ 9) T1 AggMean)).
            Min (set (index (time_filter 0 (400 * 10 ^ 9) half_minutes))) - period_ns T1 < t'
            \<and> t' \<le> Max (set (index (time_filter 0 (400 * 10 ^ 9) half_minutes)))"
    by blast+
  from b have "Min (set (index (time_filter 0 (400 * 10 ^ 9) half_minutes))) - period_ns T1
                 < 60 * 10 ^ 9"
    and "120 * 10 ^ 9 \<le> Max (set (index (time_filter 0 (400 * 10 ^ 9) half_minutes)))"
    unfolding idx by simp_all
  moreover from thm2 ne
  have "apply_time_filter_and_sampling always_accepted half_minutes 0 (400 * 10 ^ 9) RawData AggMean
     = time_filter 0 (400 * 10 ^ 9) half_minutes"
    by blast
  moreover from thm3 em
  have "apply_time_filter_and_sampling always_accepted empty_frame 0 (400 * 10 ^ 9) T1 AggMean
     = empty_frame"
    by blast
  ultimately show ?thesis using a idx by simp
qed

end
